theory Spec2Isabelle
  imports
    Main
    "HOL-Library.Word"
    "HOL-Library.Signed_Division"
    "HOL-Library.List_Lexorder"
    "HOL-Library.Char_ord"
begin

section \<open>Values shared by both programs of the repository\<close>

text \<open>
  The repository holds two Go programs of package main. The map-based one
  (flag \<open>-file\<close>, functions \<open>processLocalFile\<close>, \<open>processZipFile\<close>, \<open>streamXML\<close>,
  \<open>downloadAndProcess\<close>, \<open>displayResults\<close>) is embedded under the names of its
  functions. The memdb-based one in \<open>autoplate.go\<close> (\<open>main\<close>, \<open>processZipStream\<close>,
  \<open>displayResults\<close>) is embedded under the same names with the prefix \<open>autoplate_\<close>
  where a name would clash. \<open>ProgressReader.Read\<close> is the same text in both.

  A Go \<open>error\<close> is identified with its message. Go strings are byte strings and are
  modelled as \<open>string\<close> (a list of 8-bit characters); \<open><\<close> on them is the bytewise
  lexicographic order, as in Go.
\<close>

type_synonym error = string

text \<open>What the programs write: one constructor per \<open>log.Printf\<close> / \<open>fmt.Printf\<close> call site.\<close>

datatype event =
    WarnDecodeStatistik error
  | PrintProcessedPlates nat
  | PrintProcessing string nat
  | WarnOpenFailed string error
  | WarnProcessFailed string error
  | PrintSuccessfullyProcessed nat
  | PrintHeader nat
  | PrintPlateRow nat string string
  | PrintAndMore int
  | PrintDownloading "64 word" "64 word" "64 word"
  | LogUsingLocalFile string
  | LogNoFileSpecified
  | WarnXMLParse string error
  | WarnDecodeVehicle error
  | WarnInsertPlate error
  | PrintPlateOnly nat string
  | FatalLocalFile error
  | FatalDownload error
  | LogFailedQuery error

section \<open>The XML decoder, as the scanner sees it\<close>

text \<open>
  \<open>encoding/xml\<close> is a library, not code of the repository, so the decoder is a
  parameter: a finite script of what its calls return. One \<open>read\<close> is a token returned by
  \<open>decoder.Token()\<close> with a nil error, paired with what \<open>decoder.DecodeElement\<close> returns
  when the scanner calls it on that token (the pair's second component is never looked at
  when the scanner does not call it). The script ends with the first non-nil error of
  \<open>Token()\<close>: \<open>None\<close> stands for \<open>io.EOF\<close>, \<open>Some e\<close> for any other error. Sources
  are files and zip entries, which are finite, so the script is a list.
\<close>

datatype Token =
    StartElement string
  | EndElement string
  | CharData string
  | OtherToken

type_synonym 'r read = "Token \<times> (error + 'r)"

type_synonym 'r xml_source = "'r read list \<times> error option"

subsection \<open>The record structure decoded by the scanner\<close>

record Model =
  KoeretoejModelTypeNavn :: string

record KoeretoejBetegnelseStruktur =
  KoeretoejMaerkeTypeNavn :: string
  Model :: Model

record KoeretoejOplysningGrundStruktur =
  KoeretoejBetegnelseStruktur :: KoeretoejBetegnelseStruktur

record Statistik =
  RegistreringNummerNummer :: string
  KoeretoejOplysningGrundStruktur :: KoeretoejOplysningGrundStruktur

text \<open>The registry: Go's \<open>map[string]string\<close>.\<close>

type_synonym plates = "string \<rightharpoonup> string"

section \<open>streamXML\<close>

text \<open>
  The value written at line 187: make, one space, model (lines 182-185, through the
  string builder that is reset before each use).
\<close>

definition makeModel :: "Statistik \<Rightarrow> string" where
  "makeModel stat =
     KoeretoejMaerkeTypeNavn (KoeretoejBetegnelseStruktur (KoeretoejOplysningGrundStruktur stat))
     @ '' '' @
     KoeretoejModelTypeNavn (Model (KoeretoejBetegnelseStruktur (KoeretoejOplysningGrundStruktur stat)))"

text \<open>
  The \<open>for\<close> loop of \<open>streamXML\<close> (lines 163-195), one equation per way an iteration
  can go. \<open>processedCount\<close> is a Go \<open>int\<close>; it is incremented at most once per token read,
  so it is modelled as a natural number.
\<close>

fun streamXML_loop ::
  "Statistik read list \<Rightarrow> error option \<Rightarrow> plates \<Rightarrow> nat \<Rightarrow> event list
     \<Rightarrow> (nat \<times> error option) \<times> plates \<times> event list" where
  "streamXML_loop [] fin plates processedCount out =
     (case fin of
        None \<Rightarrow> ((processedCount, None), plates, out)
      | Some err \<Rightarrow> ((processedCount, Some (''XML parse error: '' @ err)), plates, out))"
| "streamXML_loop ((token, decoded) # rest) fin plates processedCount out =
     (case token of
        StartElement local \<Rightarrow>
          if local = ''Statistik'' then
            (case decoded of
               Inl err \<Rightarrow>
                 streamXML_loop rest fin plates processedCount (out @ [WarnDecodeStatistik err])
             | Inr stat \<Rightarrow>
                 if RegistreringNummerNummer stat \<noteq> [] then
                   streamXML_loop rest fin
                     (plates(RegistreringNummerNummer stat \<mapsto> makeModel stat))
                     (processedCount + 1)
                     (if (processedCount + 1) mod 10000 = 0
                      then out @ [PrintProcessedPlates (processedCount + 1)] else out)
                 else streamXML_loop rest fin plates processedCount out)
          else streamXML_loop rest fin plates processedCount out
      | _ \<Rightarrow> streamXML_loop rest fin plates processedCount out)"

definition streamXML ::
  "Statistik xml_source \<Rightarrow> plates \<Rightarrow> (nat \<times> error option) \<times> plates \<times> event list" where
  "streamXML reader plates = streamXML_loop (fst reader) (snd reader) plates 0 []"

subsection \<open>What a script holds, in the words of the specification\<close>

text \<open>
  The successfully decoded record elements of a script, in stream order: the reads whose
  token starts an element with local name \<open>Statistik\<close> and whose decoding succeeded.
\<close>

fun decoded_records :: "Statistik read list \<Rightarrow> Statistik list" where
  "decoded_records [] = []"
| "decoded_records ((StartElement local, Inr stat) # rest) =
     (if local = ''Statistik'' then stat # decoded_records rest else decoded_records rest)"
| "decoded_records (_ # rest) = decoded_records rest"

text \<open>Those of them that carry a non-empty identifier.\<close>

definition identified_records :: "Statistik read list \<Rightarrow> Statistik list" where
  "identified_records script =
     filter (\<lambda>stat. RegistreringNummerNummer stat \<noteq> []) (decoded_records script)"

text \<open>The record elements whose decoding failed, by their errors.\<close>

fun decode_failures :: "Statistik read list \<Rightarrow> error list" where
  "decode_failures [] = []"
| "decode_failures ((StartElement local, Inl err) # rest) =
     (if local = ''Statistik'' then err # decode_failures rest else decode_failures rest)"
| "decode_failures (_ # rest) = decode_failures rest"

text \<open>
  What \<open>encoding/xml\<close> can produce. The decoder keeps the first error of its token
  stream, and \<open>DecodeElement\<close> into this record structure (string fields only) fails
  only with such an error. So in a script the decoder can produce, a record element whose
  decoding fails is the last read, and the script ends with an error, not at end of input.
\<close>

fun keeps_error :: "Statistik read list \<Rightarrow> error option \<Rightarrow> bool" where
  "keeps_error [] fin = True"
| "keeps_error ((StartElement local, Inl err) # rest) fin =
     (if local = ''Statistik'' then rest = [] \<and> fin \<noteq> None else keeps_error rest fin)"
| "keeps_error (_ # rest) fin = keeps_error rest fin"

text \<open>Registering a list of records in order, each overwriting what its identifier held.\<close>

fun put_all :: "Statistik list \<Rightarrow> plates \<Rightarrow> plates" where
  "put_all [] plates = plates"
| "put_all (stat # rest) plates =
     put_all rest (plates(RegistreringNummerNummer stat \<mapsto> makeModel stat))"

section \<open>Strings\<close>

text \<open>\<open>strings.HasSuffix\<close>: the suffix is no longer than the string and equals its tail.\<close>

definition HasSuffix :: "string \<Rightarrow> string \<Rightarrow> bool" where
  "HasSuffix s suffix = (length suffix \<le> length s \<and> drop (length s - length suffix) s = suffix)"

text \<open>
  \<open>strings.ToLower\<close> is a library function that works on runes (it lowers capitals
  outside ASCII and rewrites bytes that are not UTF-8), so it is a parameter of the
  programs: the field \<open>strings_ToLower\<close> of the environment below. The programs compare
  its result with \<open>.xml\<close> and \<open>.zip\<close> only. The four-byte strings that are \<open>.xml\<close> and
  \<open>.zip\<close> in any mix of capitals and small letters:
\<close>

definition xml_tails :: "string list" where
  "xml_tails = [''.xml'', ''.xmL'', ''.xMl'', ''.xML'', ''.Xml'', ''.XmL'', ''.XMl'', ''.XML'']"

definition zip_tails :: "string list" where
  "zip_tails = [''.zip'', ''.ziP'', ''.zIp'', ''.zIP'', ''.Zip'', ''.ZiP'', ''.ZIp'', ''.ZIP'']"

text \<open>
  What is used of \<open>strings.ToLower\<close>: a lowered string ends with \<open>.xml\<close> exactly when
  the last four bytes of the string are one of \<open>xml_tails\<close>, and a four-byte string is
  lowered to \<open>.xml\<close> or to \<open>.zip\<close> exactly when it is one of \<open>xml_tails\<close> or of
  \<open>zip_tails\<close>. (The only runes outside ASCII that lower to an ASCII letter lower to
  \<open>i\<close> and \<open>k\<close> and take more than one byte; a byte that is not UTF-8 becomes three
  bytes.)
\<close>

definition ToLower_contract :: "(string \<Rightarrow> string) \<Rightarrow> bool" where
  "ToLower_contract lower =
     ((\<forall>s. HasSuffix (lower s) ''.xml'' \<longleftrightarrow>
             4 \<le> length s \<and> drop (length s - 4) s \<in> set xml_tails)
      \<and> (\<forall>s. length s = 4 \<longrightarrow>
             (lower s = ''.xml'' \<longleftrightarrow> s \<in> set xml_tails)
             \<and> (lower s = ''.zip'' \<longleftrightarrow> s \<in> set zip_tails)))"

text \<open>
  Lowering of the ASCII capitals, byte by byte: what \<open>strings.ToLower\<close> does on ASCII
  strings. It stands for the library function in the concrete inputs below, whose paths
  and names are ASCII.
\<close>

definition toLowerByte :: "char \<Rightarrow> char" where
  "toLowerByte c =
     (case map_of (zip ''ABCDEFGHIJKLMNOPQRSTUVWXYZ'' ''abcdefghijklmnopqrstuvwxyz'') c of
        Some l \<Rightarrow> l
      | None \<Rightarrow> c)"

definition ToLower_ascii :: "string \<Rightarrow> string" where
  "ToLower_ascii s = map toLowerByte s"

section \<open>processZipFile\<close>

text \<open>
  A \<open>zip.File\<close> of an opened archive: its name, \<open>FileInfo().IsDir()\<close>, its uncompressed
  size, and what \<open>Open()\<close> returns, the reader being identified with the decoder script
  read from it. \<open>archive/zip\<close> is a library: the opened archive is a parameter.
\<close>

record 'r File =
  Name :: string
  IsDir :: bool
  UncompressedSize64 :: nat
  Open :: "error + 'r xml_source"

text \<open>
  The \<open>for\<close> loop over \<open>r.File\<close> (lines 127-149); \<open>ToLower\<close> is \<open>strings.ToLower\<close>.
\<close>

fun processZipFile_loop ::
  "(string \<Rightarrow> string) \<Rightarrow> Statistik File list \<Rightarrow> plates \<Rightarrow> nat \<Rightarrow> event list
     \<Rightarrow> plates \<times> nat \<times> event list" where
  "processZipFile_loop ToLower [] plates processedCount out = (plates, processedCount, out)"
| "processZipFile_loop ToLower (zipFile # rest) plates processedCount out =
     (if IsDir zipFile \<or> \<not> HasSuffix (ToLower (File.Name zipFile)) ''.xml'' then
        processZipFile_loop ToLower rest plates processedCount out
      else
        (case Open zipFile of
           Inl err \<Rightarrow>
             processZipFile_loop ToLower rest plates processedCount
               (out @ [PrintProcessing (File.Name zipFile) (UncompressedSize64 zipFile),
                       WarnOpenFailed (File.Name zipFile) err])
         | Inr rc \<Rightarrow>
             (case streamXML rc plates of
                ((count, Some err), plates', scanned) \<Rightarrow>
                  processZipFile_loop ToLower rest plates' processedCount
                    (out @ [PrintProcessing (File.Name zipFile) (UncompressedSize64 zipFile)]
                         @ scanned @ [WarnProcessFailed (File.Name zipFile) err])
              | ((count, None), plates', scanned) \<Rightarrow>
                  processZipFile_loop ToLower rest plates' (processedCount + count)
                    (out @ [PrintProcessing (File.Name zipFile) (UncompressedSize64 zipFile)]
                         @ scanned))))"

text \<open>
  What the program reads from outside: \<open>strings.ToLower\<close>, \<open>os.Open\<close> of a path (the
  file being identified with the decoder script read from it), \<open>zip.OpenReader\<close> of a
  path, the remote branch \<open>downloadAndProcess\<close> as a whole (network, temporary file), and
  the order in which \<open>range\<close> walks a map, which Go leaves open.
\<close>

record env =
  strings_ToLower :: "string \<Rightarrow> string"
  os_Open :: "string \<Rightarrow> error + Statistik xml_source"
  zip_OpenReader :: "string \<Rightarrow> error + Statistik File list"
  downloadAndProcess :: "plates \<Rightarrow> error option \<times> plates \<times> event list"
  map_range :: "plates \<Rightarrow> (string \<times> string) list"

definition processZipFile :: "env \<Rightarrow> string \<Rightarrow> plates \<Rightarrow> error option \<times> plates \<times> event list" where
  "processZipFile e zipPath plates =
     (case zip_OpenReader e zipPath of
        Inl err \<Rightarrow> (Some (''failed to open zip file: '' @ err), plates, [])
      | Inr files \<Rightarrow>
          (case processZipFile_loop (strings_ToLower e) files plates 0 [] of
             (plates', processedCount, out) \<Rightarrow>
               (None, plates', out @ [PrintSuccessfullyProcessed processedCount])))"

section \<open>processLocalFile\<close>

text \<open>A call either returns or panics.\<close>

datatype 'a outcome = Panic | Return 'a

text \<open>
  Line 92 slices \<open>filePath[len(filePath)-4:]\<close>: with fewer than four bytes the lower
  bound is negative and the Go runtime panics (slice bounds out of range).
\<close>

definition processLocalFile ::
  "env \<Rightarrow> string \<Rightarrow> plates \<Rightarrow> (error option \<times> plates \<times> event list) outcome" where
  "processLocalFile e filePath plates =
     (if length filePath < 4 then Panic
      else
        let ext = strings_ToLower e (drop (length filePath - 4) filePath) in
        if ext = ''.xml'' then
          (case os_Open e filePath of
             Inl err \<Rightarrow> Return (Some (''failed to open XML file: '' @ err), plates, [])
           | Inr file \<Rightarrow>
               (case streamXML file plates of
                  ((count, Some err), plates', scanned) \<Rightarrow> Return (Some err, plates', scanned)
                | ((count, None), plates', scanned) \<Rightarrow>
                    Return (None, plates', scanned @ [PrintSuccessfullyProcessed count])))
        else if ext = ''.zip'' then Return (processZipFile e filePath plates)
        else
          Return (Some (''unsupported file type: '' @ ext @ '' (must be .xml or .zip)''),
                  plates, []))"

section \<open>displayResults\<close>

text \<open>
  \<open>ranged\<close> is the slice \<open>entries\<close> after the \<open>range\<close> loop of lines 272-275, in the
  order the map was walked. \<open>sort.Slice\<close> orders it by plate; the keys of a map are
  distinct, so every sorting algorithm gives the list \<open>sort_key fst\<close> gives.
\<close>

definition displayResults :: "(string \<times> string) list \<Rightarrow> event list" where
  "displayResults ranged =
     (let entries = sort_key fst ranged;
          displayLimit = (if length entries < 10 then length entries else 10)
      in [PrintHeader (length entries)]
         @ map (\<lambda>i. PrintPlateRow (i + 1) (fst (entries ! i)) (snd (entries ! i)))
               [0..<displayLimit]
         @ (if displayLimit < length entries
            then [PrintAndMore (int (length entries) - int displayLimit)] else []))"

section \<open>main\<close>

text \<open>
  The exit status is 1 after \<open>log.Fatalf\<close> and 0 when \<open>main\<close> returns.
\<close>

definition main :: "env \<Rightarrow> string \<Rightarrow> (nat \<times> plates \<times> event list) outcome" where
  "main e fileInput =
     (if fileInput \<noteq> [] then
        (case processLocalFile e fileInput Map.empty of
           Panic \<Rightarrow> Panic
         | Return (Some err, plates, out) \<Rightarrow>
             Return (1, plates, LogUsingLocalFile fileInput # out @ [FatalLocalFile err])
         | Return (None, plates, out) \<Rightarrow>
             Return (0, plates,
                     LogUsingLocalFile fileInput # out @ displayResults (map_range e plates)))
      else
        (case downloadAndProcess e Map.empty of
           (Some err, plates, out) \<Rightarrow>
             Return (1, plates, LogNoFileSpecified # out @ [FatalDownload err])
         | (None, plates, out) \<Rightarrow>
             Return (0, plates,
                     LogNoFileSpecified # out @ displayResults (map_range e plates))))"

section \<open>The newest remote archive\<close>

text \<open>
  An \<open>ftp.Entry\<close> of the listing. \<open>Time\<close> is an instant; \<open>a.After(b)\<close> is \<open>b < a\<close>.
\<close>

datatype EntryType = EntryTypeFile | EntryTypeFolder | EntryTypeLink

record Entry =
  Name :: string
  Type :: EntryType
  Size :: nat
  Time :: int

text \<open>The loop of \<open>downloadAndProcess\<close>, lines 220-227, and the check of lines 229-231.\<close>

fun newestZip_loop :: "Entry list \<Rightarrow> Entry option \<Rightarrow> Entry option" where
  "newestZip_loop [] newestZip = newestZip"
| "newestZip_loop (entry # rest) newestZip =
     (if Type entry = EntryTypeFile \<and> HasSuffix (Entry.Name entry) ''.zip'' then
        (case newestZip of
           None \<Rightarrow> newestZip_loop rest (Some entry)
         | Some z \<Rightarrow>
             if Time z < Time entry then newestZip_loop rest (Some entry)
             else newestZip_loop rest newestZip)
      else newestZip_loop rest newestZip)"

definition downloadAndProcess_newestZip :: "Entry list \<Rightarrow> error + Entry" where
  "downloadAndProcess_newestZip entries =
     (case newestZip_loop entries None of
        None \<Rightarrow> Inl ''no zip files found in directory''
      | Some z \<Rightarrow> Inr z)"

text \<open>
  The same loop in \<open>main\<close> of \<open>autoplate.go\<close>, lines 79-90: the suffix test is written
  out, guarded by \<open>len(entry.Name) > 4\<close>.
\<close>

fun autoplate_newestZip_loop :: "Entry list \<Rightarrow> Entry option \<Rightarrow> Entry option" where
  "autoplate_newestZip_loop [] newestZip = newestZip"
| "autoplate_newestZip_loop (entry # rest) newestZip =
     (if Type entry = EntryTypeFile \<and> 4 < length (Entry.Name entry)
         \<and> drop (length (Entry.Name entry) - 4) (Entry.Name entry) = ''.zip'' then
        (case newestZip of
           None \<Rightarrow> autoplate_newestZip_loop rest (Some entry)
         | Some z \<Rightarrow>
             if Time z < Time entry then autoplate_newestZip_loop rest (Some entry)
             else autoplate_newestZip_loop rest newestZip)
      else autoplate_newestZip_loop rest newestZip)"

definition autoplate_main_newestZip :: "Entry list \<Rightarrow> error + Entry" where
  "autoplate_main_newestZip entries =
     (case autoplate_newestZip_loop entries None of
        None \<Rightarrow> Inl ''No zip files found in directory''
      | Some z \<Rightarrow> Inr z)"

section \<open>ProgressReader\<close>

type_synonym int64 = "64 word"

type_synonym byte = "8 word"

text \<open>
  \<open>io.Reader\<close> is an interface: the wrapped source is a state \<open>'s\<close> with its \<open>Read\<close>
  method, which takes the caller's buffer and returns the buffer as it left it, the count
  \<open>n\<close> (a Go \<open>int\<close>), the error, and its next state.
\<close>

type_synonym 's Reader = "'s \<Rightarrow> byte list \<Rightarrow> (byte list \<times> int \<times> error option) \<times> 's"

record 's ProgressReader =
  reader :: 's
  total :: int64
  current :: int64
  lastPrint :: int64

text \<open>Go's \<open>/\<close> on \<open>int64\<close> truncates towards zero.\<close>

definition div_int64 :: "int64 \<Rightarrow> int64 \<Rightarrow> int64" where
  "div_int64 a b = word_of_int (sint a sdiv sint b)"

definition Read ::
  "'s Reader \<Rightarrow> 's ProgressReader \<Rightarrow> byte list
     \<Rightarrow> (byte list \<times> int \<times> error option) \<times> event list \<times> 's ProgressReader" where
  "Read rd pr p =
     (case rd (reader pr) p of
        (res, src) \<Rightarrow>
          let pr1 = pr\<lparr>reader := src, current := current pr + word_of_int (fst (snd res))\<rparr> in
          if 0 <s total pr1 then
            let percentDone = div_int64 (current pr1 * 100) (total pr1) in
            if lastPrint pr1 <s percentDone then
              (res, [PrintDownloading percentDone (current pr1) (total pr1)],
               pr1\<lparr>lastPrint := percentDone\<rparr>)
            else (res, [], pr1)
          else (res, [], pr1))"

text \<open>A caller reading through the wrapper, one buffer per call (as \<open>io.Copy\<close> does).\<close>

fun Reads ::
  "'s Reader \<Rightarrow> 's ProgressReader \<Rightarrow> byte list list
     \<Rightarrow> (byte list \<times> int \<times> error option) list \<times> event list \<times> 's ProgressReader" where
  "Reads rd pr [] = ([], [], pr)"
| "Reads rd pr (p # ps) =
     (case Read rd pr p of
        (res, out, pr') \<Rightarrow>
          (case Reads rd pr' ps of
             (ress, outs, pr'') \<Rightarrow> (res # ress, out @ outs, pr'')))"

text \<open>The same caller reading the source with no wrapper.\<close>

fun unwrapped_reads ::
  "'s Reader \<Rightarrow> 's \<Rightarrow> byte list list \<Rightarrow> (byte list \<times> int \<times> error option) list \<times> 's" where
  "unwrapped_reads rd src [] = ([], src)"
| "unwrapped_reads rd src (p # ps) =
     (case rd src p of
        (res, src') \<Rightarrow>
          (case unwrapped_reads rd src' ps of
             (ress, src'') \<Rightarrow> (res # ress, src'')))"

text \<open>The percentages carried by the progress lines of an output.\<close>

fun percentages :: "event list \<Rightarrow> int list" where
  "percentages [] = []"
| "percentages (PrintDownloading percentDone cur tot # out) = sint percentDone # percentages out"
| "percentages (_ # out) = percentages out"

section \<open>The memdb program: processZipStream and displayResults of autoplate.go\<close>

record Vehicle =
  LicensePlate :: string

text \<open>
  \<open>go-memdb\<close> is a library: the write transaction is a state \<open>'db\<close>, and
  \<open>txn.Insert("plates", &LicensePlate{Plate: p, Timestamp: time.Now()})\<close> is a parameter
  that takes the plate and returns the error and the next state.
\<close>

type_synonym 'db Insert = "'db \<Rightarrow> string \<Rightarrow> error option \<times> 'db"

text \<open>The token loop of lines 193-229, for the entry named \<open>name\<close>.\<close>

fun processZipStream_tokens ::
  "'db Insert \<Rightarrow> string \<Rightarrow> Vehicle read list \<Rightarrow> error option \<Rightarrow> 'db \<Rightarrow> nat \<Rightarrow> event list
     \<Rightarrow> 'db \<times> nat \<times> event list" where
  "processZipStream_tokens ins name [] fin txn processedCount out =
     (case fin of
        None \<Rightarrow> (txn, processedCount, out)
      | Some err \<Rightarrow> (txn, processedCount, out @ [WarnXMLParse name err]))"
| "processZipStream_tokens ins name ((token, decoded) # rest) fin txn processedCount out =
     (case token of
        StartElement local \<Rightarrow>
          if local = ''Vehicle'' then
            (case decoded of
               Inl err \<Rightarrow>
                 processZipStream_tokens ins name rest fin txn processedCount
                   (out @ [WarnDecodeVehicle err])
             | Inr vehicle \<Rightarrow>
                 if LicensePlate vehicle \<noteq> [] then
                   (case ins txn (LicensePlate vehicle) of
                      (failed, txn') \<Rightarrow>
                        processZipStream_tokens ins name rest fin txn' (processedCount + 1)
                          (out
                           @ (case failed of Some err \<Rightarrow> [WarnInsertPlate err] | None \<Rightarrow> [])
                           @ (if (processedCount + 1) mod 1000 = 0
                              then [PrintProcessedPlates (processedCount + 1)] else [])))
                 else processZipStream_tokens ins name rest fin txn processedCount out)
          else processZipStream_tokens ins name rest fin txn processedCount out
      | _ \<Rightarrow> processZipStream_tokens ins name rest fin txn processedCount out)"

text \<open>The loop over \<open>reader.File\<close>, lines 176-232.\<close>

fun processZipStream_loop ::
  "'db Insert \<Rightarrow> Vehicle File list \<Rightarrow> 'db \<Rightarrow> nat \<Rightarrow> event list \<Rightarrow> 'db \<times> nat \<times> event list" where
  "processZipStream_loop ins [] txn processedCount out = (txn, processedCount, out)"
| "processZipStream_loop ins (zipFile # rest) txn processedCount out =
     (if IsDir zipFile then processZipStream_loop ins rest txn processedCount out
      else
        (case Open zipFile of
           Inl err \<Rightarrow>
             processZipStream_loop ins rest txn processedCount
               (out @ [PrintProcessing (File.Name zipFile) (UncompressedSize64 zipFile),
                       WarnOpenFailed (File.Name zipFile) err])
         | Inr rc \<Rightarrow>
             (case processZipStream_tokens ins (File.Name zipFile) (fst rc) (snd rc) txn
                     processedCount
                     (out @ [PrintProcessing (File.Name zipFile) (UncompressedSize64 zipFile)]) of
                (txn', processedCount', out') \<Rightarrow>
                  processZipStream_loop ins rest txn' processedCount' out')))"

text \<open>
  \<open>processZipStream\<close>: \<open>zip.NewReader\<close> either fails or gives the entries; the
  transaction is committed at the end.
\<close>

definition processZipStream ::
  "'db Insert \<Rightarrow> error + Vehicle File list \<Rightarrow> 'db \<Rightarrow> error option \<times> 'db \<times> event list" where
  "processZipStream ins opened db =
     (case opened of
        Inl err \<Rightarrow> (Some (''failed to create zip reader: '' @ err), db, [])
      | Inr files \<Rightarrow>
          (case processZipStream_loop ins files db 0 [] of
             (txn, processedCount, out) \<Rightarrow>
               (None, txn, out @ [PrintSuccessfullyProcessed processedCount])))"

text \<open>
  \<open>displayResults\<close> of \<open>autoplate.go\<close>, lines 249-264: \<open>queried\<close> is what \<open>txn.Get\<close>
  returns, the plates the iterator yields or an error. The loop prints a row, then at
  index 9 the remainder line, and stops.
\<close>

fun autoplate_display_loop :: "string list \<Rightarrow> nat \<Rightarrow> nat \<Rightarrow> event list" where
  "autoplate_display_loop [] i len = []"
| "autoplate_display_loop (plate # rest) i len =
     PrintPlateOnly (i + 1) plate
     # (if 9 \<le> i then [PrintAndMore (int len - 10)]
        else autoplate_display_loop rest (i + 1) len)"

definition autoplate_displayResults :: "error + string list \<Rightarrow> event list" where
  "autoplate_displayResults queried =
     (case queried of
        Inl err \<Rightarrow> [LogFailedQuery err]
      | Inr iterated \<Rightarrow>
          (let plates = sort iterated
           in PrintHeader (length plates) # autoplate_display_loop plates 0 (length plates)))"

section \<open>Concrete inputs\<close>

text \<open>A record element with the three fields the scanner reads.\<close>

definition statistik :: "string \<Rightarrow> string \<Rightarrow> string \<Rightarrow> Statistik" where
  "statistik plate maerke modelnavn =
     \<lparr>RegistreringNummerNummer = plate,
      KoeretoejOplysningGrundStruktur = \<lparr>KoeretoejBetegnelseStruktur =
        \<lparr>KoeretoejMaerkeTypeNavn = maerke,
         Model = \<lparr>KoeretoejModelTypeNavn = modelnavn\<rparr>\<rparr>\<rparr>\<rparr>"

text \<open>
  A script with a repeated identifier, an element with no identifier, tokens that are not
  record elements, and a last element that fails to decode, the input ending inside it.
\<close>

definition example_script :: "Statistik read list" where
  "example_script =
     [(StartElement ''Statistik'', Inr (statistik ''AB12345'' ''Toyota'' ''Corolla'')),
      (CharData ''x'', Inl []),
      (StartElement ''Statistik'', Inr (statistik [] ''Fiat'' ''Uno'')),
      (StartElement ''Other'', Inr (statistik ''ZZ'' ''Fiat'' ''Uno'')),
      (StartElement ''Statistik'', Inr (statistik ''CD67890'' ''Volvo'' ''V60'')),
      (StartElement ''Statistik'', Inr (statistik ''AB12345'' ''Toyota'' ''Yaris'')),
      (StartElement ''Statistik'', Inl ''unexpected EOF'')]"

section \<open>Reading an output\<close>

text \<open>The lines written through \<open>log.Printf\<close> with the prefix \<open>Warning:\<close>.\<close>

fun is_warning :: "event \<Rightarrow> bool" where
  "is_warning (WarnDecodeStatistik err) = True"
| "is_warning (WarnOpenFailed name err) = True"
| "is_warning (WarnProcessFailed name err) = True"
| "is_warning (WarnXMLParse name err) = True"
| "is_warning (WarnDecodeVehicle err) = True"
| "is_warning (WarnInsertPlate err) = True"
| "is_warning _ = False"

text \<open>The errors of the decode warnings of an output, in order.\<close>

fun decode_warnings :: "event list \<Rightarrow> error list" where
  "decode_warnings [] = []"
| "decode_warnings (WarnDecodeStatistik err # out) = err # decode_warnings out"
| "decode_warnings (_ # out) = decode_warnings out"

text \<open>The names of the entries announced with \<open>Processing:\<close>, in order.\<close>

fun announced :: "event list \<Rightarrow> string list" where
  "announced [] = []"
| "announced (PrintProcessing name bytes # out) = name # announced out"
| "announced (_ # out) = announced out"

text \<open>The entries an output warns it could not open, and those it failed to process.\<close>

fun open_warnings :: "event list \<Rightarrow> (string \<times> error) list" where
  "open_warnings [] = []"
| "open_warnings (WarnOpenFailed name err # out) = (name, err) # open_warnings out"
| "open_warnings (_ # out) = open_warnings out"

fun process_warnings :: "event list \<Rightarrow> (string \<times> error) list" where
  "process_warnings [] = []"
| "process_warnings (WarnProcessFailed name err # out) = (name, err) # process_warnings out"
| "process_warnings (_ # out) = process_warnings out"

section \<open>What an archive holds, in the words of the specification\<close>

text \<open>
  An entry of interest: not a directory, and its last four bytes are \<open>.xml\<close> in any mix
  of capitals and small letters.
\<close>

definition is_markup_entry :: "'r File \<Rightarrow> bool" where
  "is_markup_entry f =
     (\<not> IsDir f \<and> 4 \<le> length (File.Name f)
      \<and> drop (length (File.Name f) - 4) (File.Name f) \<in> set xml_tails)"

text \<open>
  The identified records of the entries of interest that open, in archive order, whether
  the entry's token stream ends at end of input or with an error.
\<close>

fun archive_records :: "Statistik File list \<Rightarrow> Statistik list" where
  "archive_records [] = []"
| "archive_records (f # rest) =
     (if is_markup_entry f
      then (case Open f of Inl err \<Rightarrow> [] | Inr rc \<Rightarrow> identified_records (fst rc))
      else [])
     @ archive_records rest"

text \<open>The number of those records that come from entries read to the end of input.\<close>

fun archive_count :: "Statistik File list \<Rightarrow> nat" where
  "archive_count [] = 0"
| "archive_count (f # rest) =
     (if is_markup_entry f
      then (case Open f of
              Inl err \<Rightarrow> 0
            | Inr rc \<Rightarrow> (if snd rc = None then length (identified_records (fst rc)) else 0))
      else 0)
     + archive_count rest"

text \<open>The entries of interest that fail to open, and those whose token stream fails.\<close>

fun open_failures :: "'r File list \<Rightarrow> (string \<times> error) list" where
  "open_failures [] = []"
| "open_failures (f # rest) =
     (if is_markup_entry f
      then (case Open f of Inl err \<Rightarrow> [(File.Name f, err)] | Inr rc \<Rightarrow> [])
      else [])
     @ open_failures rest"

fun stream_failures :: "'r File list \<Rightarrow> (string \<times> error) list" where
  "stream_failures [] = []"
| "stream_failures (f # rest) =
     (if is_markup_entry f
      then (case Open f of
              Inl err \<Rightarrow> []
            | Inr rc \<Rightarrow> (case snd rc of None \<Rightarrow> []
                          | Some err \<Rightarrow> [(File.Name f, ''XML parse error: '' @ err)]))
      else [])
     @ stream_failures rest"

text \<open>
  An entry with three record elements that decode and carry an identifier, followed by
  one that is malformed: its decoding fails and the decoder then returns the error it
  kept. The entry is the only one of its archive, and the path given to the program ends
  in \<open>.zip\<close>.
\<close>

definition scenario_script :: "Statistik read list" where
  "scenario_script =
     [(StartElement ''ESStatistikListeModtag_I'', Inl []),
      (StartElement ''Statistik'', Inr (statistik ''AB12345'' ''Toyota'' ''Corolla'')),
      (StartElement ''Statistik'', Inr (statistik ''CD67890'' ''Volvo'' ''V60'')),
      (StartElement ''Statistik'', Inr (statistik ''EF11111'' ''Fiat'' ''Uno'')),
      (StartElement ''Statistik'', Inl ''syntax error'')]"

definition scenario_entry :: "Statistik File" where
  "scenario_entry =
     \<lparr>File.Name = ''data.XML'', IsDir = False, UncompressedSize64 = 400,
      Open = Inr (scenario_script, Some ''syntax error'')\<rparr>"

definition scenario_env :: env where
  "scenario_env =
     \<lparr>strings_ToLower = ToLower_ascii,
      os_Open = (\<lambda>path. Inl ''no such file''),
      zip_OpenReader = (\<lambda>path. Inr [scenario_entry]),
      downloadAndProcess = (\<lambda>plates. (None, plates, [])),
      map_range = (\<lambda>plates.
        concat (map (\<lambda>k. case plates k of None \<Rightarrow> [] | Some v \<Rightarrow> [(k, v)])
                    [''AB12345'', ''CD67890'', ''EF11111'']))\<rparr>"

section \<open>Further inputs and readings\<close>

text \<open>
  A stand-in for the memdb write transaction: the plates stored, newest first, one object
  per plate (the table's index on \<open>Plate\<close> is unique).
\<close>

definition memdb_insert :: "string list Insert" where
  "memdb_insert txn plate = (None, plate # filter (\<lambda>p. p \<noteq> plate) txn)"

text \<open>An archive entry that is neither a directory nor named \<open>.xml\<close>.\<close>

definition readme_entry :: "Vehicle File" where
  "readme_entry =
     \<lparr>File.Name = ''readme.txt'', IsDir = False, UncompressedSize64 = 10,
      Open = Inr ([(StartElement ''Vehicle'', Inr \<lparr>LicensePlate = ''AB12345''\<rparr>)], None)\<rparr>"

text \<open>A listed file of kind file whose name ends with \<open>.zip\<close>, in the words of the specification.\<close>

definition is_zip_file :: "Entry \<Rightarrow> bool" where
  "is_zip_file entry = (Type entry = EntryTypeFile \<and> HasSuffix (Entry.Name entry) ''.zip'')"

text \<open>A remote file whose whole name is \<open>.zip\<close>.\<close>

definition dot_zip_entry :: Entry where
  "dot_zip_entry = \<lparr>Entry.Name = ''.zip'', Type = EntryTypeFile, Size = 1, Time = 0\<rparr>"

text \<open>The rows and the remainder lines of a printed summary, in order.\<close>

fun printed_rows :: "event list \<Rightarrow> (nat \<times> string \<times> string) list" where
  "printed_rows [] = []"
| "printed_rows (PrintPlateRow i plate makeModelName # out) =
     (i, plate, makeModelName) # printed_rows out"
| "printed_rows (_ # out) = printed_rows out"

fun remainder_lines :: "event list \<Rightarrow> int list" where
  "remainder_lines [] = []"
| "remainder_lines (PrintAndMore k # out) = k # remainder_lines out"
| "remainder_lines (_ # out) = remainder_lines out"

text \<open>Ten plates, in no particular order, and a registry of exactly these ten.\<close>

definition ten_plates :: "string list" where
  "ten_plates = [''AB10'', ''AB09'', ''AB08'', ''AB07'', ''AB06'', ''AB05'', ''AB04'', ''AB03'',
                 ''AB02'', ''AB01'']"

definition ten_entries :: "(string \<times> string) list" where
  "ten_entries = map (\<lambda>plate. (plate, ''Fiat Uno'')) ten_plates"

text \<open>
  A byte source that hands out what it holds in chunks of the buffer's size and reports
  \<open>EOF\<close> once empty; a progress reader over eight bytes with declared total 8; and
  four read requests with buffers of three bytes.
\<close>

definition chunk_source :: "byte list Reader" where
  "chunk_source src p =
     (let n = min (length src) (length p)
      in ((take n src @ drop n p, int n, if src = [] then Some ''EOF'' else None), drop n src))"

definition eight_bytes :: "byte list ProgressReader" where
  "eight_bytes = \<lparr>reader = [1, 2, 3, 4, 5, 6, 7, 8], total = 8, current = 0, lastPrint = 0\<rparr>"

definition four_buffers :: "byte list list" where
  "four_buffers = [[0, 0, 0], [0, 0, 0], [0, 0, 0], [0, 0, 0]]"

section \<open>Properties of streamXML\<close>

lemma streamXML_loop_plates:
  "fst (snd (streamXML_loop script fin plates n out)) = put_all (identified_records script) plates"
proof (induction script arbitrary: plates n out)
  case Nil
  show ?case by (simp add: identified_records_def split: option.splits)
next
  case (Cons r script)
  obtain token decoded where r: "r = (token, decoded)" by (cases r)
  show ?case
    using Cons.IH
    by (cases token; cases decoded) (simp_all add: r identified_records_def)
qed

lemma streamXML_loop_count:
  "fst (fst (streamXML_loop script fin plates n out)) = n + length (identified_records script)"
proof (induction script arbitrary: plates n out)
  case Nil
  show ?case by (simp add: identified_records_def split: option.splits)
next
  case (Cons r script)
  obtain token decoded where r: "r = (token, decoded)" by (cases r)
  show ?case
    using Cons.IH
    by (cases token; cases decoded) (simp_all add: r identified_records_def)
qed

lemma streamXML_loop_error:
  "snd (fst (streamXML_loop script fin plates n out)) =
     map_option (\<lambda>err. ''XML parse error: '' @ err) fin"
proof (induction script arbitrary: plates n out)
  case Nil
  show ?case by (simp split: option.splits)
next
  case (Cons r script)
  obtain token decoded where r: "r = (token, decoded)" by (cases r)
  show ?case
    using Cons.IH
    by (cases token; cases decoded) (simp_all add: r)
qed

lemma dom_put_all:
  "dom (put_all recs plates) = dom plates \<union> RegistreringNummerNummer ` set recs"
  by (induction recs arbitrary: plates) auto

lemma put_all_lookup:
  "put_all recs plates k =
     (if k \<in> RegistreringNummerNummer ` set recs
      then Some (makeModel (last (filter (\<lambda>stat. RegistreringNummerNummer stat = k) recs)))
      else plates k)"
proof (induction recs arbitrary: plates)
  case Nil
  show ?case by simp
next
  case (Cons stat recs)
  show ?case
  proof (cases "k \<in> RegistreringNummerNummer ` set recs")
    case True
    then have "filter (\<lambda>stat. RegistreringNummerNummer stat = k) recs \<noteq> []"
      by (auto simp: filter_empty_conv)
    with True show ?thesis by (simp add: Cons.IH)
  next
    case False
    then have "filter (\<lambda>stat. RegistreringNummerNummer stat = k) recs = []"
      by (auto simp: filter_empty_conv)
    with False show ?thesis by (auto simp: Cons.IH)
  qed
qed

lemma identified_records_nonempty:
  "stat \<in> set (identified_records script) \<Longrightarrow> RegistreringNummerNummer stat \<noteq> []"
  by (simp add: identified_records_def)

lemma statistik_fields [simp]:
  "makeModel (statistik p a b) = a @ '' '' @ b"
  "RegistreringNummerNummer (statistik p a b) = p"
  by (simp_all add: makeModel_def statistik_def)

lemma example_run:
  "streamXML (example_script, Some ''unexpected EOF'') Map.empty =
     ((3, Some ''XML parse error: unexpected EOF''),
      [''AB12345'' \<mapsto> ''Toyota Corolla'', ''CD67890'' \<mapsto> ''Volvo V60'',
       ''AB12345'' \<mapsto> ''Toyota Yaris''],
      [WarnDecodeStatistik ''unexpected EOF''])"
  by (simp add: streamXML_def example_script_def)

lemma example_identified:
  "identified_records example_script =
     [statistik ''AB12345'' ''Toyota'' ''Corolla'', statistik ''CD67890'' ''Volvo'' ''V60'',
      statistik ''AB12345'' ''Toyota'' ''Yaris'']"
  by (simp add: identified_records_def example_script_def)

text \<open>
  Claim C10. For every decoder script, however it ends, and every starting registry: one
  call of \<open>streamXML\<close> adds at most as many new keys as the count it returns, and that
  count is the number of successfully decoded record elements with a non-empty identifier
  (one per occurrence, repeated identifiers included). The error returned is nil at end of
  input and the wrapped stream error otherwise, and the count is the same in both cases.
\<close>

theorem streamXML_count_and_new_keys:
  assumes "streamXML (script, fin) plates = ((count, err), plates', out)"
  shows "finite (dom plates' - dom plates)
       \<and> card (dom plates' - dom plates) \<le> count
       \<and> count = length (identified_records script)
       \<and> err = map_option (\<lambda>e. ''XML parse error: '' @ e) fin"
proof -
  let ?recs = "identified_records script"
  have p: "plates' = put_all ?recs plates"
    using assms streamXML_loop_plates [of script fin plates 0 "[]"]
    by (simp add: streamXML_def)
  have c: "count = length ?recs"
    using assms streamXML_loop_count [of script fin plates 0 "[]"]
    by (simp add: streamXML_def)
  have e: "err = map_option (\<lambda>e. ''XML parse error: '' @ e) fin"
    using assms streamXML_loop_error [of script fin plates 0 "[]"]
    by (simp add: streamXML_def)
  have sub: "dom plates' - dom plates \<subseteq> RegistreringNummerNummer ` set ?recs"
    by (auto simp: p dom_put_all)
  have fin: "finite (dom plates' - dom plates)"
    using sub by (rule finite_subset) simp
  have "card (dom plates' - dom plates) \<le> card (RegistreringNummerNummer ` set ?recs)"
    using sub by (intro card_mono) simp_all
  also have "\<dots> \<le> card (set ?recs)" by (rule card_image_le) simp
  also have "\<dots> \<le> length ?recs" by (rule card_length)
  finally show ?thesis using fin c e by simp
qed

theorem streamXML_count_and_new_keys_witness:
  "fst (fst (streamXML (example_script, Some ''unexpected EOF'') Map.empty)) = 3
   \<and> snd (fst (streamXML (example_script, Some ''unexpected EOF'') Map.empty))
       = Some ''XML parse error: unexpected EOF''
   \<and> card (dom (fst (snd (streamXML (example_script, Some ''unexpected EOF'') Map.empty)))
            - dom (Map.empty :: plates)) \<le> 3
   \<and> length (identified_records example_script) = 3"
  using streamXML_count_and_new_keys [OF example_run]
  by (simp add: example_run)

text \<open>
  Claim C1. For every decoder script and every way it ends: the keys of the registry after
  the scan are the keys it had plus the non-empty identifiers of the successfully decoded
  record elements; starting from the empty registry its size is the number of distinct
  such identifiers; each of them is mapped to the description of its last occurrence in
  stream order, every other key keeps what it had; and the scan never makes the empty
  string a key.
\<close>

theorem streamXML_registry_last_wins:
  assumes "streamXML (script, fin) plates = (res, plates', out)"
  shows "dom plates' = dom plates \<union> RegistreringNummerNummer ` set (identified_records script)
       \<and> (plates = Map.empty \<longrightarrow>
            card (dom plates') = card (RegistreringNummerNummer ` set (identified_records script)))
       \<and> (\<forall>k \<in> RegistreringNummerNummer ` set (identified_records script).
            plates' k = Some (makeModel (last (filter (\<lambda>stat. RegistreringNummerNummer stat = k)
                                                (identified_records script)))))
       \<and> (\<forall>k. k \<notin> RegistreringNummerNummer ` set (identified_records script)
              \<longrightarrow> plates' k = plates k)
       \<and> ([] \<notin> dom plates \<longrightarrow> [] \<notin> dom plates')"
proof -
  let ?recs = "identified_records script"
  have p: "plates' = put_all ?recs plates"
    using assms streamXML_loop_plates [of script fin plates 0 "[]"]
    by (simp add: streamXML_def)
  have d: "dom plates' = dom plates \<union> RegistreringNummerNummer ` set ?recs"
    by (simp add: p dom_put_all)
  have ne: "[] \<notin> RegistreringNummerNummer ` set ?recs"
    using identified_records_nonempty by force
  show ?thesis
    using d ne by (auto simp: p put_all_lookup)
qed

theorem streamXML_registry_last_wins_witness:
  "dom (fst (snd (streamXML (example_script, Some ''unexpected EOF'') Map.empty)))
     = {''AB12345'', ''CD67890''}
   \<and> card (dom (fst (snd (streamXML (example_script, Some ''unexpected EOF'') Map.empty)))) = 2
   \<and> fst (snd (streamXML (example_script, Some ''unexpected EOF'') Map.empty)) ''AB12345''
       = Some ''Toyota Yaris''
   \<and> [] \<notin> dom (fst (snd (streamXML (example_script, Some ''unexpected EOF'') Map.empty)))"
  using streamXML_registry_last_wins [OF example_run]
  by (simp add: example_run example_identified insert_commute)

lemma streamXML_loop_out:
  "snd (snd (streamXML_loop script fin plates n out)) =
     out @ snd (snd (streamXML_loop script fin plates n []))"
proof (induction script arbitrary: plates n out)
  case Nil
  show ?case by (simp split: option.splits)
next
  case (Cons r script)
  obtain token decoded where r: "r = (token, decoded)" by (cases r)
  show ?case
  proof (cases token)
    case (StartElement local)
    show ?thesis
    proof (cases decoded)
      case (Inl err)
      show ?thesis
        using Cons.IH [of plates n "out @ [WarnDecodeStatistik err]"]
              Cons.IH [of plates n "[WarnDecodeStatistik err]"]
              Cons.IH [of plates n out]
        by (simp add: r StartElement Inl del: fun_upd_apply)
    next
      case (Inr stat)
      show ?thesis
        using Cons.IH [of "plates(RegistreringNummerNummer stat \<mapsto> makeModel stat)" "Suc n"
                          "out @ [PrintProcessedPlates (Suc n)]"]
              Cons.IH [of "plates(RegistreringNummerNummer stat \<mapsto> makeModel stat)" "Suc n"
                          "[PrintProcessedPlates (Suc n)]"]
              Cons.IH [of "plates(RegistreringNummerNummer stat \<mapsto> makeModel stat)" "Suc n" out]
              Cons.IH [of plates n out]
        by (simp add: r StartElement Inr del: fun_upd_apply)
    qed
  qed (use Cons.IH [of plates n out] in \<open>simp_all add: r\<close>)
qed

lemma streamXML_loop_append:
  "streamXML_loop (pre @ post) fin plates n out =
     streamXML_loop post fin
       (fst (snd (streamXML_loop pre None plates n out)))
       (fst (fst (streamXML_loop pre None plates n out)))
       (snd (snd (streamXML_loop pre None plates n out)))"
proof (induction pre arbitrary: plates n out)
  case Nil
  show ?case by simp
next
  case (Cons r pre)
  obtain token decoded where r: "r = (token, decoded)" by (cases r)
  show ?case
    by (cases token; cases decoded) (simp_all add: r Cons.IH del: fun_upd_apply)
qed

lemma decoded_records_append:
  "decoded_records (xs @ ys) = decoded_records xs @ decoded_records ys"
  by (induction xs rule: decoded_records.induct) simp_all

lemma identified_records_append:
  "identified_records (xs @ ys) = identified_records xs @ identified_records ys"
  by (simp add: identified_records_def decoded_records_append)

lemma identified_records_single:
  "identified_records [(StartElement ''Statistik'', Inr stat)] =
     (if RegistreringNummerNummer stat \<noteq> [] then [stat] else [])"
  by (simp add: identified_records_def)

lemma put_all_append:
  "put_all (xs @ ys) plates = put_all ys (put_all xs plates)"
  by (induction xs arbitrary: plates) simp_all

text \<open>
  Claim C6. For every successfully decoded record element, wherever it stands in the
  stream: if its identifier is not empty, the value held under that identifier once the
  element has been processed is the make name, one space, the model name (whatever the
  two names are, empty included), and the count has grown by one; if its identifier is
  empty, the scan gives the same count, error, registry and output as the stream without
  that element: nothing is registered, counted or logged.
\<close>

theorem streamXML_record_registered_or_discarded:
  "(RegistreringNummerNummer stat \<noteq> [] \<longrightarrow>
      fst (snd (streamXML (pre @ [(StartElement ''Statistik'', Inr stat)], fin) plates))
          (RegistreringNummerNummer stat)
        = Some (KoeretoejMaerkeTypeNavn
                  (KoeretoejBetegnelseStruktur (KoeretoejOplysningGrundStruktur stat))
                @ '' '' @
                KoeretoejModelTypeNavn
                  (Model (KoeretoejBetegnelseStruktur (KoeretoejOplysningGrundStruktur stat))))
      \<and> fst (fst (streamXML (pre @ [(StartElement ''Statistik'', Inr stat)], fin) plates))
        = fst (fst (streamXML (pre, fin) plates)) + 1)
   \<and> (RegistreringNummerNummer stat = [] \<longrightarrow>
      streamXML (pre @ [(StartElement ''Statistik'', Inr stat)] @ post, fin) plates
        = streamXML (pre @ post, fin) plates)"
proof -
  let ?r = "(StartElement ''Statistik'', Inr stat)"
  have a: "fst (snd (streamXML (pre @ [?r], fin) plates)) (RegistreringNummerNummer stat)
             = Some (makeModel stat)"
    if "RegistreringNummerNummer stat \<noteq> []"
    using that streamXML_loop_plates [of "pre @ [?r]" fin plates 0 "[]"]
    by (simp add: streamXML_def identified_records_append put_all_append identified_records_single)
  have b: "fst (fst (streamXML (pre @ [?r], fin) plates)) = fst (fst (streamXML (pre, fin) plates)) + 1"
    if "RegistreringNummerNummer stat \<noteq> []"
    using that streamXML_loop_count [of "pre @ [?r]" fin plates 0 "[]"]
          streamXML_loop_count [of pre fin plates 0 "[]"]
    by (simp add: streamXML_def identified_records_append identified_records_single)
  have c: "streamXML (pre @ [?r] @ post, fin) plates = streamXML (pre @ post, fin) plates"
    if "RegistreringNummerNummer stat = []"
    using that
    by (simp add: streamXML_def streamXML_loop_append [of pre "?r # post"]
                  streamXML_loop_append [of pre post])
  show ?thesis using a b c by (simp add: makeModel_def)
qed

theorem streamXML_record_registered_or_discarded_witness:
  "fst (snd (streamXML ([(OtherToken, Inl []), (StartElement ''Statistik'', Inr (statistik ''AB12345'' [] ''Corolla''))],
                        None) Map.empty)) ''AB12345'' = Some '' Corolla''
   \<and> streamXML ([(OtherToken, Inl []), (StartElement ''Statistik'', Inr (statistik [] ''Fiat'' ''Uno'')),
                 (StartElement ''Statistik'', Inr (statistik ''AB12345'' [] ''Corolla''))], None) Map.empty
     = ((1, None), [''AB12345'' \<mapsto> '' Corolla''], [])"
  using streamXML_record_registered_or_discarded
          [of "statistik ''AB12345'' [] ''Corolla''" "[(OtherToken, Inl [])]" None Map.empty "[]"]
        streamXML_record_registered_or_discarded
          [of "statistik [] ''Fiat'' ''Uno''" "[(OtherToken, Inl [])]" None Map.empty
              "[(StartElement ''Statistik'', Inr (statistik ''AB12345'' [] ''Corolla''))]"]
  by (simp add: streamXML_def statistik_def makeModel_def)

section \<open>Properties of the scan inside processZipFile and main\<close>

lemma length_dot_ext: "length [a, b, c, d] = (4::nat)"
  by simp

lemma is_markup_entry_code:
  assumes "ToLower_contract lower"
  shows "is_markup_entry f \<longleftrightarrow> \<not> (IsDir f \<or> \<not> HasSuffix (lower (File.Name f)) ''.xml'')"
  using assms unfolding is_markup_entry_def ToLower_contract_def by blast

text \<open>Lowering the ASCII capitals byte by byte meets what is used of \<open>strings.ToLower\<close>.\<close>

lemma toLowerByte_letters:
  "toLowerByte c = CHR ''.'' \<longleftrightarrow> c = CHR ''.''"
  "toLowerByte c = CHR ''x'' \<longleftrightarrow> c = CHR ''x'' \<or> c = CHR ''X''"
  "toLowerByte c = CHR ''m'' \<longleftrightarrow> c = CHR ''m'' \<or> c = CHR ''M''"
  "toLowerByte c = CHR ''l'' \<longleftrightarrow> c = CHR ''l'' \<or> c = CHR ''L''"
  "toLowerByte c = CHR ''z'' \<longleftrightarrow> c = CHR ''z'' \<or> c = CHR ''Z''"
  "toLowerByte c = CHR ''i'' \<longleftrightarrow> c = CHR ''i'' \<or> c = CHR ''I''"
  "toLowerByte c = CHR ''p'' \<longleftrightarrow> c = CHR ''p'' \<or> c = CHR ''P''"
  by (auto simp: toLowerByte_def)

lemma ToLower_ascii_tails:
  assumes "length s = 4"
  shows "ToLower_ascii s = ''.xml'' \<longleftrightarrow> s \<in> set xml_tails"
    and "ToLower_ascii s = ''.zip'' \<longleftrightarrow> s \<in> set zip_tails"
proof -
  obtain a b c d where s: "s = [a, b, c, d]"
    using assms by (auto simp: length_Suc_conv numeral_eq_Suc)
  show "ToLower_ascii s = ''.xml'' \<longleftrightarrow> s \<in> set xml_tails"
    unfolding s ToLower_ascii_def xml_tails_def by (auto simp: toLowerByte_letters)
  show "ToLower_ascii s = ''.zip'' \<longleftrightarrow> s \<in> set zip_tails"
    unfolding s ToLower_ascii_def zip_tails_def by (auto simp: toLowerByte_letters)
qed

lemma ToLower_ascii_contract: "ToLower_contract ToLower_ascii"
proof -
  have "HasSuffix (ToLower_ascii s) ''.xml'' \<longleftrightarrow>
          4 \<le> length s \<and> drop (length s - 4) s \<in> set xml_tails" for s
  proof (cases "4 \<le> length s")
    case True
    then have len: "length (drop (length s - 4) s) = 4" by simp
    have "HasSuffix (ToLower_ascii s) ''.xml'' \<longleftrightarrow>
            4 \<le> length s \<and> ToLower_ascii (drop (length s - 4) s) = ''.xml''"
      unfolding HasSuffix_def ToLower_ascii_def length_dot_ext length_map drop_map ..
    then show ?thesis using ToLower_ascii_tails(1) [OF len] by simp
  next
    case False
    then show ?thesis
      unfolding HasSuffix_def ToLower_ascii_def length_dot_ext length_map by simp
  qed
  then show ?thesis
    unfolding ToLower_contract_def using ToLower_ascii_tails by blast
qed

lemma announced_append: "announced (xs @ ys) = announced xs @ announced ys"
  by (induction xs rule: announced.induct) simp_all

lemma open_warnings_append: "open_warnings (xs @ ys) = open_warnings xs @ open_warnings ys"
  by (induction xs rule: open_warnings.induct) simp_all

lemma process_warnings_append:
  "process_warnings (xs @ ys) = process_warnings xs @ process_warnings ys"
  by (induction xs rule: process_warnings.induct) simp_all

lemma decode_warnings_append:
  "decode_warnings (xs @ ys) = decode_warnings xs @ decode_warnings ys"
  by (induction xs rule: decode_warnings.induct) simp_all

lemmas events_append =
  announced_append open_warnings_append process_warnings_append decode_warnings_append

lemma streamXML_loop_events:
  "announced (snd (snd (streamXML_loop script fin plates n out))) = announced out
   \<and> open_warnings (snd (snd (streamXML_loop script fin plates n out))) = open_warnings out
   \<and> process_warnings (snd (snd (streamXML_loop script fin plates n out))) = process_warnings out"
proof (induction script arbitrary: plates n out)
  case Nil
  show ?case by (simp split: option.splits)
next
  case (Cons r script)
  obtain token decoded where r: "r = (token, decoded)" by (cases r)
  show ?case
    by (cases token; cases decoded) (simp_all add: r Cons.IH events_append del: fun_upd_apply)
qed

lemma streamXML_loop_decode_warnings:
  "decode_warnings (snd (snd (streamXML_loop script fin plates n out))) =
     decode_warnings out @ decode_failures script"
proof (induction script arbitrary: plates n out)
  case Nil
  show ?case by (simp split: option.splits)
next
  case (Cons r script)
  obtain token decoded where r: "r = (token, decoded)" by (cases r)
  show ?case
    by (cases token; cases decoded) (simp_all add: r Cons.IH events_append del: fun_upd_apply)
qed

lemma streamXML_loop_warnings:
  "length (filter is_warning (snd (snd (streamXML_loop script fin plates n out)))) =
     length (filter is_warning out) + length (decode_failures script)"
proof (induction script arbitrary: plates n out)
  case Nil
  show ?case by (simp split: option.splits)
next
  case (Cons r script)
  obtain token decoded where r: "r = (token, decoded)" by (cases r)
  show ?case
    by (cases token; cases decoded) (simp_all add: r Cons.IH del: fun_upd_apply)
qed

lemma streamXML_result:
  "streamXML (script, fin) plates =
     ((length (identified_records script), map_option (\<lambda>e. ''XML parse error: '' @ e) fin),
      put_all (identified_records script) plates,
      snd (snd (streamXML (script, fin) plates)))"
  using streamXML_loop_plates [of script fin plates 0 "[]"]
        streamXML_loop_count [of script fin plates 0 "[]"]
        streamXML_loop_error [of script fin plates 0 "[]"]
  by (simp add: streamXML_def prod_eq_iff)

lemma streamXML_events:
  "announced (snd (snd (streamXML rc plates))) = []"
  "open_warnings (snd (snd (streamXML rc plates))) = []"
  "process_warnings (snd (snd (streamXML rc plates))) = []"
  "decode_warnings (snd (snd (streamXML rc plates))) = decode_failures (fst rc)"
  "length (filter is_warning (snd (snd (streamXML rc plates)))) = length (decode_failures (fst rc))"
  using streamXML_loop_events [of "fst rc" "snd rc" plates 0 "[]"]
        streamXML_loop_decode_warnings [of "fst rc" "snd rc" plates 0 "[]"]
        streamXML_loop_warnings [of "fst rc" "snd rc" plates 0 "[]"]
  by (simp_all add: streamXML_def)

lemma streamXML_out_independent:
  "snd (snd (streamXML (script, Some e) plates)) = snd (snd (streamXML (script, None) plates))"
proof -
  have "snd (snd (streamXML_loop script (Some e) plates n out))
          = snd (snd (streamXML_loop script None plates n out))" for n out
  proof (induction script arbitrary: plates n out)
    case Nil
    show ?case by simp
  next
    case (Cons r script)
    obtain token decoded where r: "r = (token, decoded)" by (cases r)
    show ?case
      by (cases token; cases decoded) (simp_all add: r Cons.IH del: fun_upd_apply)
  qed
  then show ?thesis by (simp add: streamXML_def)
qed

text \<open>The loop over the entries of an archive, component by component.\<close>

lemma processZipFile_loop_plates:
  assumes lower: "ToLower_contract lower"
  shows "fst (processZipFile_loop lower files plates n out)
           = put_all (archive_records files) plates"
proof (induction files arbitrary: plates n out)
  case Nil
  show ?case by simp
next
  case (Cons f files)
  show ?case
  proof (cases "is_markup_entry f")
    case False
    then show ?thesis using Cons.IH by (simp add: is_markup_entry_code [OF lower])
  next
    case True
    show ?thesis
    proof (cases "Open f")
      case (Inl err)
      with True show ?thesis using Cons.IH by (simp add: is_markup_entry_code [OF lower])
    next
      case (Inr rc)
      obtain script fin where rc: "rc = (script, fin)" by (cases rc)
      obtain sc where sx: "streamXML (script, fin) plates =
          ((length (identified_records script), map_option (\<lambda>e. ''XML parse error: '' @ e) fin),
           put_all (identified_records script) plates, sc)"
        using streamXML_result [of script fin plates] rc by simp
      show ?thesis
        using True Inr Cons.IH sx
        by (cases fin) (simp_all add: is_markup_entry_code [OF lower] rc put_all_append)
    qed
  qed
qed

lemma processZipFile_loop_count:
  assumes lower: "ToLower_contract lower"
  shows "fst (snd (processZipFile_loop lower files plates n out)) = n + archive_count files"
proof (induction files arbitrary: plates n out)
  case Nil
  show ?case by simp
next
  case (Cons f files)
  show ?case
  proof (cases "is_markup_entry f")
    case False
    then show ?thesis using Cons.IH by (simp add: is_markup_entry_code [OF lower])
  next
    case True
    show ?thesis
    proof (cases "Open f")
      case (Inl err)
      with True show ?thesis using Cons.IH by (simp add: is_markup_entry_code [OF lower])
    next
      case (Inr rc)
      obtain script fin where rc: "rc = (script, fin)" by (cases rc)
      obtain sc where sx: "streamXML (script, fin) plates =
          ((length (identified_records script), map_option (\<lambda>e. ''XML parse error: '' @ e) fin),
           put_all (identified_records script) plates, sc)"
        using streamXML_result [of script fin plates] rc by simp
      show ?thesis
        using True Inr Cons.IH sx
        by (cases fin) (simp_all add: is_markup_entry_code [OF lower] rc)
    qed
  qed
qed

lemma processZipFile_loop_events:
  assumes lower: "ToLower_contract lower"
  shows "announced (snd (snd (processZipFile_loop lower files plates n out))) =
           announced out @ map File.Name (filter is_markup_entry files)
       \<and> open_warnings (snd (snd (processZipFile_loop lower files plates n out))) =
           open_warnings out @ open_failures files
       \<and> process_warnings (snd (snd (processZipFile_loop lower files plates n out))) =
           process_warnings out @ stream_failures files"
proof (induction files arbitrary: plates n out)
  case Nil
  show ?case by simp
next
  case (Cons f files)
  show ?case
  proof (cases "is_markup_entry f")
    case False
    then show ?thesis using Cons.IH by (simp add: is_markup_entry_code [OF lower])
  next
    case True
    show ?thesis
    proof (cases "Open f")
      case (Inl err)
      with True show ?thesis using Cons.IH by (simp add: is_markup_entry_code [OF lower] events_append)
    next
      case (Inr rc)
      obtain script fin where rc: "rc = (script, fin)" by (cases rc)
      obtain sc where sx: "streamXML (script, fin) plates =
          ((length (identified_records script), map_option (\<lambda>e. ''XML parse error: '' @ e) fin),
           put_all (identified_records script) plates, sc)"
        using streamXML_result [of script fin plates] rc by simp
      have sc: "announced sc = []" "open_warnings sc = []" "process_warnings sc = []"
        using streamXML_events(1-3) [of rc plates] by (simp_all add: sx rc)
      show ?thesis
        using True Inr Cons.IH sx
        by (cases fin) (simp_all add: is_markup_entry_code [OF lower] rc sc events_append)
    qed
  qed
qed

lemma streamXML_fst:
  "fst (streamXML (script, fin) plates) =
     (length (identified_records script), map_option (\<lambda>e. ''XML parse error: '' @ e) fin)"
  by (subst streamXML_result) simp

lemma streamXML_plates:
  "fst (snd (streamXML (script, fin) plates)) = put_all (identified_records script) plates"
  by (subst streamXML_result) simp

lemma displayResults_no_warning: "filter is_warning (displayResults ranged) = []"
  by (simp add: displayResults_def Let_def filter_empty_conv)

lemma processZipFile_opened:
  assumes "ToLower_contract (strings_ToLower e)" and "zip_OpenReader e zipPath = Inr files"
  shows "processZipFile e zipPath plates =
           (None, put_all (archive_records files) plates,
            snd (snd (processZipFile_loop (strings_ToLower e) files plates 0 []))
            @ [PrintSuccessfullyProcessed (archive_count files)])"
  using processZipFile_loop_plates [OF assms(1), of files plates 0 "[]"]
        processZipFile_loop_count [OF assms(1), of files plates 0 "[]"]
  by (auto simp: processZipFile_def assms(2) split: prod.splits)

text \<open>
  What holds of the scan and of its caller, for every script. The scan logs one decode
  warning per record element that fails to decode, in order. When the token stream fails,
  the scan returns the count, registry and output it had reached, together with the wrapped
  stream error. Whenever the archive opens, \<open>processZipFile\<close> returns no error, every
  entry of interest that opens has its identified records registered (those of entries
  after a failed one included), and each entry whose token stream failed is reported by one
  warning.
\<close>

lemma scan_errors_stay_inside_entry:
  "decode_warnings (snd (snd (streamXML (script, fin) plates))) = decode_failures script
   \<and> streamXML (script, Some serr) plates
     = ((fst (fst (streamXML (script, None) plates)), Some (''XML parse error: '' @ serr)),
        snd (streamXML (script, None) plates))
   \<and> (ToLower_contract (strings_ToLower e) \<and> zip_OpenReader e zipPath = Inr files \<longrightarrow>
        fst (processZipFile e zipPath plates) = None
      \<and> fst (snd (processZipFile e zipPath plates)) = put_all (archive_records files) plates
      \<and> process_warnings (snd (snd (processZipFile e zipPath plates))) = stream_failures files)"
proof -
  have c: "decode_warnings (snd (snd (streamXML (script, fin) plates))) = decode_failures script"
    using streamXML_events(4) [of "(script, fin)" plates] by simp
  have d: "streamXML (script, Some serr) plates
     = ((fst (fst (streamXML (script, None) plates)), Some (''XML parse error: '' @ serr)),
        snd (streamXML (script, None) plates))"
    by (simp add: prod_eq_iff streamXML_fst streamXML_plates streamXML_out_independent)
  have e: "fst (processZipFile e zipPath plates) = None
      \<and> fst (snd (processZipFile e zipPath plates)) = put_all (archive_records files) plates
      \<and> process_warnings (snd (snd (processZipFile e zipPath plates))) = stream_failures files"
    if "ToLower_contract (strings_ToLower e)" "zip_OpenReader e zipPath = Inr files"
    using processZipFile_loop_events [OF that(1), of files plates 0 "[]"]
    by (simp add: processZipFile_opened [OF that] events_append)
  show ?thesis using c d e by blast
qed

text \<open>
  In a script the decoder can produce, a record element that fails to decode is the only
  one that does, and the token stream fails after it.
\<close>

lemma keeps_error_failure:
  "keeps_error script fin \<Longrightarrow> decode_failures script \<noteq> [] \<Longrightarrow>
     fin \<noteq> None \<and> length (decode_failures script) = 1"
  by (induction script fin rule: keeps_error.induct) (auto split: if_splits)

text \<open>
  So a malformed record element ends the scan of its entry with an error. For an archive
  of one entry of interest, given with \<open>-file\<close>: the records decoded before it stay
  registered, two warnings are logged (the decode warning and the warning that the entry
  failed), the processed count printed is 0, and the exit status is 0.
\<close>

lemma malformed_record_ends_entry:
  assumes lower: "ToLower_contract (strings_ToLower e)"
      and opened: "zip_OpenReader e zipPath = Inr [f]"
      and entry: "is_markup_entry f"
      and source: "Open f = Inr (script, fin)"
      and kept: "keeps_error script fin"
      and failed: "decode_failures script \<noteq> []"
      and path: "4 \<le> length zipPath" "drop (length zipPath - 4) zipPath \<in> set zip_tails"
  shows "\<exists>out. main e zipPath = Return (0, put_all (identified_records script) Map.empty, out)
               \<and> PrintSuccessfullyProcessed 0 \<in> set out
               \<and> length (filter is_warning out) = 2"
proof -
  from keeps_error_failure [OF kept failed] obtain serr where
    fin: "fin = Some serr" and one: "length (decode_failures script) = 1"
    by auto
  obtain sc where sx: "streamXML (script, Some serr) Map.empty =
      ((length (identified_records script), Some (''XML parse error: '' @ serr)),
       put_all (identified_records script) Map.empty, sc)"
    using streamXML_result [of script "Some serr" Map.empty] by simp
  have w: "length (filter is_warning sc) = 1"
    using streamXML_events(5) [of "(script, Some serr)" Map.empty] one by (simp add: sx)
  have code: "\<not> IsDir f \<and> HasSuffix (strings_ToLower e (File.Name f)) ''.xml''"
    using entry is_markup_entry_code [OF lower, of f] by simp
  have zip: "processZipFile e zipPath Map.empty =
      (None, put_all (identified_records script) Map.empty,
       PrintProcessing (File.Name f) (UncompressedSize64 f) # sc
       @ [WarnProcessFailed (File.Name f) (''XML parse error: '' @ serr),
          PrintSuccessfullyProcessed 0])"
    by (simp add: processZipFile_def opened code source fin sx)
  have len: "length (drop (length zipPath - 4) zipPath) = 4" using path(1) by simp
  have ext: "strings_ToLower e (drop (length zipPath - 4) zipPath) = ''.zip''"
    using lower path(2) len unfolding ToLower_contract_def by blast
  have ne: "zipPath \<noteq> []" using path(1) by auto
  have "main e zipPath =
      Return (0, put_all (identified_records script) Map.empty,
              LogUsingLocalFile zipPath
              # (PrintProcessing (File.Name f) (UncompressedSize64 f) # sc
                 @ [WarnProcessFailed (File.Name f) (''XML parse error: '' @ serr),
                    PrintSuccessfullyProcessed 0])
              @ displayResults (map_range e (put_all (identified_records script) Map.empty)))"
    using path(1) ne by (simp add: main_def processLocalFile_def zip ext Let_def)
  then show ?thesis
    by (simp add: w displayResults_no_warning)
qed

text \<open>
  Claim C3, on \<open>streamXML\<close> and \<open>processZipFile\<close>. For the archive of one entry that
  holds three well-formed records, each with an identifier, and then one malformed record:
  the script is one the decoder can produce, the scan returns the count 3 with the stream
  error, and the program logs two warnings, prints the processed count 0 and exits with
  status 0.
\<close>

theorem malformed_record_discards_count:
  "keeps_error scenario_script (Some ''syntax error'')
   \<and> length (decoded_records scenario_script) = 3
   \<and> list_all (\<lambda>stat. RegistreringNummerNummer stat \<noteq> []) (decoded_records scenario_script)
   \<and> decode_failures scenario_script = [''syntax error'']
   \<and> fst (streamXML (scenario_script, Some ''syntax error'') Map.empty)
       = (3, Some ''XML parse error: syntax error'')
   \<and> (\<exists>plates. main scenario_env ''x.zip'' =
         Return (0, plates,
           [LogUsingLocalFile ''x.zip'', PrintProcessing ''data.XML'' 400,
            WarnDecodeStatistik ''syntax error'',
            WarnProcessFailed ''data.XML'' ''XML parse error: syntax error'',
            PrintSuccessfullyProcessed 0, PrintHeader 3,
            PrintPlateRow 1 ''AB12345'' ''Toyota Corolla'',
            PrintPlateRow 2 ''CD67890'' ''Volvo V60'',
            PrintPlateRow 3 ''EF11111'' ''Fiat Uno'']))"
proof -
  let ?plates = "[''AB12345'' \<mapsto> ''Toyota Corolla'', ''CD67890'' \<mapsto> ''Volvo V60'',
                  ''EF11111'' \<mapsto> ''Fiat Uno'']"
  have run: "streamXML (scenario_script, Some ''syntax error'') Map.empty =
      ((3, Some ''XML parse error: syntax error''), ?plates,
       [WarnDecodeStatistik ''syntax error''])"
    by (simp add: streamXML_def scenario_script_def)
  have low: "ToLower_ascii ''data.XML'' = ''data.xml''" "ToLower_ascii ''.zip'' = ''.zip''"
    by (simp_all add: ToLower_ascii_def toLowerByte_def)
  have zip: "processZipFile scenario_env ''x.zip'' Map.empty =
      (None, ?plates,
       [PrintProcessing ''data.XML'' 400, WarnDecodeStatistik ''syntax error'',
        WarnProcessFailed ''data.XML'' ''XML parse error: syntax error'',
        PrintSuccessfullyProcessed 0])"
    by (simp add: processZipFile_def scenario_env_def scenario_entry_def low HasSuffix_def run)
  have walk: "map_range scenario_env ?plates =
      [(''AB12345'', ''Toyota Corolla''), (''CD67890'', ''Volvo V60''),
       (''EF11111'', ''Fiat Uno'')]"
    by (simp add: scenario_env_def)
  have shown: "displayResults [(''AB12345'', ''Toyota Corolla''), (''CD67890'', ''Volvo V60''),
                               (''EF11111'', ''Fiat Uno'')] =
      [PrintHeader 3, PrintPlateRow 1 ''AB12345'' ''Toyota Corolla'',
       PrintPlateRow 2 ''CD67890'' ''Volvo V60'', PrintPlateRow 3 ''EF11111'' ''Fiat Uno'']"
    by (simp add: displayResults_def upt_rec numeral_nat)
  have ext: "strings_ToLower scenario_env ''.zip'' = ''.zip''"
    by (simp add: scenario_env_def low)
  have "main scenario_env ''x.zip'' =
      Return (0, ?plates,
        [LogUsingLocalFile ''x.zip'', PrintProcessing ''data.XML'' 400,
         WarnDecodeStatistik ''syntax error'',
         WarnProcessFailed ''data.XML'' ''XML parse error: syntax error'',
         PrintSuccessfullyProcessed 0, PrintHeader 3,
         PrintPlateRow 1 ''AB12345'' ''Toyota Corolla'',
         PrintPlateRow 2 ''CD67890'' ''Volvo V60'',
         PrintPlateRow 3 ''EF11111'' ''Fiat Uno''])"
    by (simp add: main_def processLocalFile_def ext zip walk shown)
  moreover have "keeps_error scenario_script (Some ''syntax error'')"
    by (simp add: scenario_script_def)
  moreover have "decoded_records scenario_script =
      [statistik ''AB12345'' ''Toyota'' ''Corolla'', statistik ''CD67890'' ''Volvo'' ''V60'',
       statistik ''EF11111'' ''Fiat'' ''Uno'']"
    by (simp add: scenario_script_def)
  moreover have "decode_failures scenario_script = [''syntax error'']"
    by (simp add: scenario_script_def)
  ultimately show ?thesis by (simp add: run)
qed

section \<open>Properties of the archive readers\<close>

lemma xml_tails_length: "tail \<in> set xml_tails \<Longrightarrow> length tail = 4"
  by (auto simp: xml_tails_def)

lemma ends_with_tail_iff:
  "4 \<le> length n \<and> drop (length n - 4) n \<in> set xml_tails \<longleftrightarrow>
     (\<exists>stem tail. n = stem @ tail \<and> tail \<in> set xml_tails)"
proof
  assume a: "4 \<le> length n \<and> drop (length n - 4) n \<in> set xml_tails"
  have "n = take (length n - 4) n @ drop (length n - 4) n" by simp
  with a show "\<exists>stem tail. n = stem @ tail \<and> tail \<in> set xml_tails" by blast
next
  assume "\<exists>stem tail. n = stem @ tail \<and> tail \<in> set xml_tails"
  then obtain stem tail where n: "n = stem @ tail" and t: "tail \<in> set xml_tails" by blast
  from t have "length tail = 4" by (rule xml_tails_length)
  with n t show "4 \<le> length n \<and> drop (length n - 4) n \<in> set xml_tails" by simp
qed

text \<open>
  The archive reader of the map program. Whenever the archive opens, \<open>processZipFile\<close>
  returns no error; the entries it announces and opens are exactly the entries that are not
  directories and whose name ends in \<open>.xml\<close> in any mix of capitals and small letters,
  in archive order; each of them that fails to open is reported by one warning; and the
  registry holds the identified records of all of them that open, so an entry that fails to
  open does not stop the entries after it.
\<close>

lemma processZipFile_processes_markup_entries:
  assumes "ToLower_contract (strings_ToLower e)" and "zip_OpenReader e zipPath = Inr files"
  shows "fst (processZipFile e zipPath plates) = None
       \<and> announced (snd (snd (processZipFile e zipPath plates)))
           = map File.Name (filter is_markup_entry files)
       \<and> open_warnings (snd (snd (processZipFile e zipPath plates))) = open_failures files
       \<and> fst (snd (processZipFile e zipPath plates)) = put_all (archive_records files) plates
       \<and> (is_markup_entry f \<longleftrightarrow>
            \<not> IsDir f \<and> (\<exists>stem tail. File.Name f = stem @ tail \<and> tail \<in> set xml_tails))"
  using processZipFile_loop_events [OF assms(1), of files plates 0 "[]"]
        ends_with_tail_iff [of "File.Name f"]
  by (simp add: processZipFile_opened [OF assms] events_append is_markup_entry_def)

text \<open>
  The archive reader of \<open>autoplate.go\<close> announces and opens every entry that is not a
  directory, whatever its name.
\<close>

lemma processZipStream_tokens_announced:
  "announced (snd (snd (processZipStream_tokens ins name script fin txn n out))) = announced out"
proof (induction script arbitrary: txn n out)
  case Nil
  show ?case by (simp add: events_append split: option.splits)
next
  case (Cons r script)
  obtain token decoded where r: "r = (token, decoded)" by (cases r)
  show ?case
    by (cases token; cases decoded)
       (simp_all add: r Cons.IH events_append split: prod.splits option.splits)
qed

lemma processZipStream_loop_announced:
  "announced (snd (snd (processZipStream_loop ins files txn n out))) =
     announced out @ map File.Name (filter (\<lambda>f. \<not> IsDir f) files)"
proof (induction files arbitrary: txn n out)
  case Nil
  show ?case by simp
next
  case (Cons f files)
  show ?case
  proof (cases "Open f")
    case (Inl err)
    then show ?thesis using Cons.IH by (simp add: events_append)
  next
    case (Inr rc)
    obtain txn' n' out' where t:
      "processZipStream_tokens ins (File.Name f) (fst rc) (snd rc) txn n
         (out @ [PrintProcessing (File.Name f) (UncompressedSize64 f)]) = (txn', n', out')"
      by (metis prod_cases3)
    have "announced out' = announced out @ [File.Name f]"
      using processZipStream_tokens_announced
              [of ins "File.Name f" "fst rc" "snd rc" txn n
                  "out @ [PrintProcessing (File.Name f) (UncompressedSize64 f)]"]
      by (simp add: t events_append)
    then show ?thesis using Cons.IH Inr by (simp add: t)
  qed
qed

lemma processZipStream_announces_every_file:
  "announced (snd (snd (processZipStream ins (Inr files) db)))
     = map File.Name (filter (\<lambda>f. \<not> IsDir f) files)"
  using processZipStream_loop_announced [of ins files db 0 "[]"]
  by (auto simp: processZipStream_def events_append split: prod.splits)

text \<open>
  Claim C4, on \<open>processZipStream\<close> of \<open>autoplate.go\<close>. An archive whose only entry
  is a file named \<open>readme.txt\<close>, which is not an entry of interest, is not skipped: the
  entry is announced, opened and scanned, and the plate found in it is stored and counted.
\<close>

theorem processZipStream_reads_other_names:
  "\<not> is_markup_entry readme_entry
   \<and> processZipStream memdb_insert (Inr [readme_entry]) []
       = (None, [''AB12345''],
          [PrintProcessing ''readme.txt'' 10, PrintSuccessfullyProcessed 1])"
  by (simp add: is_markup_entry_def readme_entry_def processZipStream_def memdb_insert_def
                xml_tails_def)

section \<open>Properties of the selection of the newest archive\<close>

lemma HasSuffix_iff: "HasSuffix s suffix \<longleftrightarrow> (\<exists>stem. s = stem @ suffix)"
proof
  assume "HasSuffix s suffix"
  then have "s = take (length s - length suffix) s @ suffix"
    by (metis HasSuffix_def append_take_drop_id)
  then show "\<exists>stem. s = stem @ suffix" ..
next
  assume "\<exists>stem. s = stem @ suffix"
  then show "HasSuffix s suffix" by (auto simp: HasSuffix_def)
qed

lemma newestZip_loop_filter:
  "newestZip_loop entries acc = newestZip_loop (filter is_zip_file entries) acc"
  by (induction entries arbitrary: acc) (simp_all add: is_zip_file_def split: option.splits)

lemma newestZip_loop_Some:
  assumes "list_all is_zip_file cs"
  shows "\<exists>r pre post. newestZip_loop cs (Some z) = Some r \<and> z # cs = pre @ r # post
           \<and> list_all (\<lambda>c. Time c < Time r) pre \<and> list_all (\<lambda>c. Time c \<le> Time r) post"
  using assms
proof (induction cs arbitrary: z)
  case Nil
  have "newestZip_loop [] (Some z) = Some z \<and> [z] = [] @ z # []
          \<and> list_all (\<lambda>c. Time c < Time z) [] \<and> list_all (\<lambda>c. Time c \<le> Time z) []"
    by simp
  then show ?case by blast
next
  case (Cons c cs)
  then have cand: "is_zip_file c" and rest: "list_all is_zip_file cs" by simp_all
  show ?case
  proof (cases "Time z < Time c")
    case True
    from Cons.IH [OF rest, of c] obtain r pre post where
      h: "newestZip_loop cs (Some c) = Some r" "c # cs = pre @ r # post"
         "list_all (\<lambda>c. Time c < Time r) pre" "list_all (\<lambda>c. Time c \<le> Time r) post"
      by blast
    have "Time c \<le> Time r"
      using h(2,3) by (cases pre) auto
    with True have zr: "Time z < Time r" by simp
    have "newestZip_loop (c # cs) (Some z) = Some r"
      using True cand h(1) by (simp add: is_zip_file_def)
    moreover have "z # c # cs = (z # pre) @ r # post" using h(2) by simp
    moreover have "list_all (\<lambda>c. Time c < Time r) (z # pre)" using zr h(3) by simp
    ultimately show ?thesis using h(4) by blast
  next
    case False
    from Cons.IH [OF rest, of z] obtain r pre post where
      h: "newestZip_loop cs (Some z) = Some r" "z # cs = pre @ r # post"
         "list_all (\<lambda>c. Time c < Time r) pre" "list_all (\<lambda>c. Time c \<le> Time r) post"
      by blast
    have run: "newestZip_loop (c # cs) (Some z) = Some r"
      using False cand h(1) by (simp add: is_zip_file_def)
    show ?thesis
    proof (cases pre)
      case Nil
      then have "z = r" "cs = post" using h(2) by simp_all
      then have "z # c # cs = [] @ r # (c # post)"
                "list_all (\<lambda>c. Time c \<le> Time r) (c # post)"
        using False h(4) by simp_all
      moreover note run
      moreover have "list_all (\<lambda>c. Time c < Time r) []" by simp
      ultimately show ?thesis by blast
    next
      case (Cons p pre')
      then have "p = z" "cs = pre' @ r # post" using h(2) by simp_all
      then have zr: "Time z < Time r" using h(3) Cons by simp
      then have "Time c < Time r" using False by simp
      then have "list_all (\<lambda>c. Time c < Time r) (z # c # pre')"
        using zr h(3) Cons by simp
      moreover have "z # c # cs = (z # c # pre') @ r # post"
        using \<open>cs = pre' @ r # post\<close> by simp
      ultimately show ?thesis using run h(4) by blast
    qed
  qed
qed

text \<open>
  The selection of the map program (\<open>downloadAndProcess\<close>, lines 220-231). It fails,
  with the error \<open>no zip files found in directory\<close>, exactly when no listed entry is a
  file whose name ends with \<open>.zip\<close>; otherwise it returns a survivor whose timestamp is
  strictly later than that of every survivor listed before it and at least that of every
  survivor listed after it: the first of the survivors with the latest timestamp.
\<close>

lemma newestZip_first_latest:
  "(case downloadAndProcess_newestZip entries of
      Inl err \<Rightarrow> err = ''no zip files found in directory'' \<and> filter is_zip_file entries = []
    | Inr r \<Rightarrow>
        (\<exists>pre post. filter is_zip_file entries = pre @ r # post
           \<and> list_all (\<lambda>c. Time c < Time r) pre \<and> list_all (\<lambda>c. Time c \<le> Time r) post))
   \<and> (is_zip_file entry \<longleftrightarrow>
        Type entry = EntryTypeFile \<and> (\<exists>stem. Entry.Name entry = stem @ ''.zip''))"
proof (cases "filter is_zip_file entries")
  case Nil
  then have "newestZip_loop entries None = None"
    by (simp add: newestZip_loop_filter [of entries])
  then show ?thesis using Nil by (simp add: downloadAndProcess_newestZip_def is_zip_file_def HasSuffix_iff)
next
  case (Cons c cs)
  have "list_all is_zip_file (filter is_zip_file entries)"
    by (simp add: list_all_iff)
  then have all: "list_all is_zip_file (c # cs)"
    by (simp add: Cons)
  then have "list_all is_zip_file cs" "is_zip_file c" by simp_all
  from newestZip_loop_Some [OF this(1), of c] obtain r pre post where
    h: "newestZip_loop cs (Some c) = Some r" "c # cs = pre @ r # post"
       "list_all (\<lambda>c. Time c < Time r) pre" "list_all (\<lambda>c. Time c \<le> Time r) post"
    by blast
  have "newestZip_loop entries None = Some r"
    using h(1) \<open>is_zip_file c\<close>
    by (simp add: newestZip_loop_filter [of entries] Cons is_zip_file_def)
  then show ?thesis
    using h Cons by (auto simp: downloadAndProcess_newestZip_def is_zip_file_def HasSuffix_iff)
qed

text \<open>
  The selection of \<open>autoplate.go\<close> agrees with it on every listing with no entry named
  exactly \<open>.zip\<close>.
\<close>

lemma autoplate_newestZip_loop_agrees:
  "list_all (\<lambda>entry. Entry.Name entry \<noteq> ''.zip'') entries \<Longrightarrow>
     autoplate_newestZip_loop entries acc = newestZip_loop entries acc"
proof (induction entries arbitrary: acc)
  case Nil
  show ?case by simp
next
  case (Cons entry entries)
  have ne: "Entry.Name entry \<noteq> ''.zip''" using Cons.prems by simp
  have suffix: "HasSuffix (Entry.Name entry) ''.zip'' \<longleftrightarrow>
      4 \<le> length (Entry.Name entry)
      \<and> drop (length (Entry.Name entry) - 4) (Entry.Name entry) = ''.zip''"
    unfolding HasSuffix_def length_dot_ext ..
  have "(4 < length (Entry.Name entry)
          \<and> drop (length (Entry.Name entry) - 4) (Entry.Name entry) = ''.zip'')
        \<longleftrightarrow> HasSuffix (Entry.Name entry) ''.zip''"
    unfolding suffix using ne by (cases "length (Entry.Name entry) = 4") auto
  then show ?case using Cons by (simp split: option.splits)
qed

text \<open>
  Claim C2, on \<open>main\<close> of \<open>autoplate.go\<close>. For the listing that holds one file named
  \<open>.zip\<close>, a file whose name ends with \<open>.zip\<close>, the selection of \<open>autoplate.go\<close>
  fails with \<open>No zip files found in directory\<close>, while the selection of the map
  program returns that file.
\<close>

theorem autoplate_main_newestZip_misses_dot_zip:
  "is_zip_file dot_zip_entry
   \<and> autoplate_main_newestZip [dot_zip_entry] = Inl ''No zip files found in directory''
   \<and> downloadAndProcess_newestZip [dot_zip_entry] = Inr dot_zip_entry"
  by (simp add: is_zip_file_def dot_zip_entry_def autoplate_main_newestZip_def
                downloadAndProcess_newestZip_def HasSuffix_def)

section \<open>Properties of the printed summary\<close>

lemma printed_rows_append: "printed_rows (xs @ ys) = printed_rows xs @ printed_rows ys"
  by (induction xs rule: printed_rows.induct) simp_all

lemma remainder_lines_append: "remainder_lines (xs @ ys) = remainder_lines xs @ remainder_lines ys"
  by (induction xs rule: remainder_lines.induct) simp_all

lemma printed_rows_map:
  "printed_rows (map (\<lambda>i. PrintPlateRow (f i) (g i) (h i)) is) = map (\<lambda>i. (f i, g i, h i)) is"
  by (induction "is") simp_all

lemma remainder_lines_map:
  "remainder_lines (map (\<lambda>i. PrintPlateRow (f i) (g i) (h i)) is) = []"
  by (induction "is") simp_all

lemma displayResults_rows:
  "printed_rows (displayResults ranged) =
     map (\<lambda>i. (i + 1, sort_key fst ranged ! i)) [0..<min 10 (length ranged)]"
  by (simp add: displayResults_def Let_def printed_rows_append printed_rows_map min_def)

lemma displayResults_remainder:
  "remainder_lines (displayResults ranged) =
     (if 10 < length ranged then [int (length ranged) - 10] else [])"
  by (simp add: displayResults_def Let_def remainder_lines_append remainder_lines_map)

lemma map_insort_key:
  "map f (insort_key f x ys) = insort (f x) (map f ys)"
  by (induction ys) simp_all

lemma map_sort_key: "map f (sort_key f xs) = sort (map f xs)"
  by (induction xs) (simp_all add: map_insort_key)

lemma take_as_map_nth: "take n xs = map ((!) xs) [0..<min n (length xs)]"
  by (rule nth_equalityI) simp_all

lemma sort_key_enumerates:
  assumes "distinct (map fst ranged)" "map_of ranged = plates"
  shows "map fst (sort_key fst ranged) = sorted_list_of_set (dom plates)"
    and "list_all (\<lambda>(k, v). plates k = Some v) (sort_key fst ranged)"
    and "length ranged = card (dom plates)"
proof -
  have d: "dom plates = set (map fst ranged)"
    using dom_map_of_conv_image_fst [of ranged] assms(2) by simp
  show "map fst (sort_key fst ranged) = sorted_list_of_set (dom plates)"
    using assms(1) by (simp only: d map_sort_key sorted_list_of_set_sort_remdups distinct_remdups_id)
  show "list_all (\<lambda>(k, v). plates k = Some v) (sort_key fst ranged)"
    using assms by (auto simp: list_all_iff)
  show "length ranged = card (dom plates)"
    using assms(1) by (simp only: d distinct_card length_map)
qed

text \<open>
  The summary of the map program. For every registry, in whatever order \<open>range\<close> walks
  it: the rows printed are those of the ten smallest identifiers (all of them when there
  are fewer), in strictly ascending order, each with the description the registry holds,
  numbered from 1; at most ten rows are printed; and one remainder line, carrying the number
  of entries not printed, is printed exactly when the registry has more than ten entries.
\<close>

lemma displayResults_sorted_top_ten:
  assumes "distinct (map fst ranged)" and "map_of ranged = plates"
  shows "map (\<lambda>row. fst (snd row)) (printed_rows (displayResults ranged))
           = take 10 (sorted_list_of_set (dom plates))
       \<and> sorted_wrt (<) (map (\<lambda>row. fst (snd row)) (printed_rows (displayResults ranged)))
       \<and> list_all (\<lambda>(i, k, v). plates k = Some v) (printed_rows (displayResults ranged))
       \<and> map fst (printed_rows (displayResults ranged))
           = [1..<Suc (length (printed_rows (displayResults ranged)))]
       \<and> length (printed_rows (displayResults ranged)) \<le> 10
       \<and> remainder_lines (displayResults ranged)
           = (if 10 < card (dom plates)
              then [int (card (dom plates)) - int (length (printed_rows (displayResults ranged)))]
              else [])"
proof -
  let ?es = "sort_key fst ranged"
  let ?rows = "printed_rows (displayResults ranged)"
  note en = sort_key_enumerates [OF assms]
  have rows: "?rows = map (\<lambda>i. (i + 1, ?es ! i)) [0..<min 10 (length ranged)]"
    by (rule displayResults_rows)
  have len: "length ?rows = min 10 (length ranged)" by (simp add: rows)
  have "map (\<lambda>row. fst (snd row)) ?rows = map ((!) (map fst ?es)) [0..<min 10 (length (map fst ?es))]"
    by (simp add: rows)
  also have "\<dots> = take 10 (map fst ?es)" by (rule take_as_map_nth [symmetric])
  finally have keys: "map (\<lambda>row. fst (snd row)) ?rows = take 10 (sorted_list_of_set (dom plates))"
    by (simp only: en(1))
  have fin: "finite (dom plates)" using assms(2) by (auto simp: finite_dom_map_of)
  have "sorted_wrt (<) (sorted_list_of_set (dom plates))"
    by (simp add: strict_sorted_iff)
  then have strict: "sorted_wrt (<) (map (\<lambda>row. fst (snd row)) ?rows)"
    unfolding keys by (rule sorted_wrt_take)
  have "?es ! i \<in> set ?es" if "i < min 10 (length ranged)" for i
    using that by (intro nth_mem) simp
  then have vals: "list_all (\<lambda>(i, k, v). plates k = Some v) ?rows"
    using en(2) unfolding rows list_all_iff by fastforce
  have nums: "map fst ?rows = [1..<Suc (length ?rows)]"
    unfolding len by (simp add: rows map_Suc_upt [symmetric] del: map_Suc_upt upt_Suc)
  have rem: "remainder_lines (displayResults ranged)
           = (if 10 < card (dom plates) then [int (card (dom plates)) - int (length ?rows)] else [])"
    unfolding len by (simp add: displayResults_remainder en(3))
  show ?thesis using keys strict vals nums len rem by simp
qed

lemma ten_entries_display:
  "displayResults ten_entries =
     [PrintHeader 10,
      PrintPlateRow 1 ''AB01'' ''Fiat Uno'', PrintPlateRow 2 ''AB02'' ''Fiat Uno'',
      PrintPlateRow 3 ''AB03'' ''Fiat Uno'', PrintPlateRow 4 ''AB04'' ''Fiat Uno'',
      PrintPlateRow 5 ''AB05'' ''Fiat Uno'', PrintPlateRow 6 ''AB06'' ''Fiat Uno'',
      PrintPlateRow 7 ''AB07'' ''Fiat Uno'', PrintPlateRow 8 ''AB08'' ''Fiat Uno'',
      PrintPlateRow 9 ''AB09'' ''Fiat Uno'', PrintPlateRow 10 ''AB10'' ''Fiat Uno'']"
  by (simp add: displayResults_def ten_entries_def ten_plates_def upt_rec numeral_nat)

lemma displayResults_sorted_top_ten_example:
  "distinct (map fst ten_entries)
   \<and> map (\<lambda>row. fst (snd row)) (printed_rows (displayResults ten_entries))
       = take 10 (sorted_list_of_set (dom (map_of ten_entries)))
   \<and> length (printed_rows (displayResults ten_entries)) = 10
   \<and> remainder_lines (displayResults ten_entries) = []"
proof -
  have d: "distinct (map fst ten_entries)"
    by (simp add: ten_entries_def ten_plates_def)
  have c: "card (dom (map_of ten_entries)) = 10"
    using sort_key_enumerates(3) [OF d refl] by (simp add: ten_entries_def ten_plates_def)
  show ?thesis
    using displayResults_sorted_top_ten [OF d refl] d c
    by (simp add: ten_entries_display)
qed

text \<open>
  The summary of \<open>autoplate.go\<close> prints a remainder line as soon as there are ten
  plates.
\<close>

lemma autoplate_display_loop_remainder:
  "i \<le> 9 \<Longrightarrow>
     remainder_lines (autoplate_display_loop ps i len)
       = (if 10 \<le> i + length ps then [int len - 10] else [])"
  by (induction ps arbitrary: i) auto

lemma autoplate_displayResults_remainder:
  "remainder_lines (autoplate_displayResults (Inr iterated))
     = (if 10 \<le> length iterated then [int (length iterated) - 10] else [])"
  using autoplate_display_loop_remainder [of 0 "sort iterated" "length iterated"]
  by (simp add: autoplate_displayResults_def Let_def)

text \<open>
  Claim C7, on \<open>displayResults\<close> of \<open>autoplate.go\<close>. With exactly ten plates stored,
  the summary prints the ten rows in ascending order and then a remainder line, which
  reads \<open>... and 0 more\<close>.
\<close>

theorem autoplate_displayResults_remainder_at_ten:
  "autoplate_displayResults (Inr ten_plates) =
     [PrintHeader 10,
      PrintPlateOnly 1 ''AB01'', PrintPlateOnly 2 ''AB02'', PrintPlateOnly 3 ''AB03'',
      PrintPlateOnly 4 ''AB04'', PrintPlateOnly 5 ''AB05'', PrintPlateOnly 6 ''AB06'',
      PrintPlateOnly 7 ''AB07'', PrintPlateOnly 8 ''AB08'', PrintPlateOnly 9 ''AB09'',
      PrintPlateOnly 10 ''AB10'', PrintAndMore 0]
   \<and> length ten_plates = 10"
  by (simp add: autoplate_displayResults_def ten_plates_def)

section \<open>Properties of the progress reader\<close>

lemma Read_result:
  "fst (Read rd pr p) = fst (rd (reader pr) p)
   \<and> reader (snd (snd (Read rd pr p))) = snd (rd (reader pr) p)
   \<and> total (snd (snd (Read rd pr p))) = total pr
   \<and> current (snd (snd (Read rd pr p))) = current pr + word_of_int (fst (snd (fst (rd (reader pr) p))))"
  by (simp add: Read_def Let_def split: prod.splits)

lemma Read_out:
  "fst (snd (Read rd pr p)) =
     (if 0 <s total pr
         \<and> lastPrint pr <s div_int64 (current (snd (snd (Read rd pr p))) * 100) (total pr)
      then [PrintDownloading (div_int64 (current (snd (snd (Read rd pr p))) * 100) (total pr))
                             (current (snd (snd (Read rd pr p)))) (total pr)]
      else [])
   \<and> lastPrint (snd (snd (Read rd pr p))) =
     (if 0 <s total pr
         \<and> lastPrint pr <s div_int64 (current (snd (snd (Read rd pr p))) * 100) (total pr)
      then div_int64 (current (snd (snd (Read rd pr p))) * 100) (total pr)
      else lastPrint pr)"
  by (simp add: Read_def Let_def split: prod.splits)

lemma percentages_append: "percentages (xs @ ys) = percentages xs @ percentages ys"
  by (induction xs rule: percentages.induct) simp_all

lemma Reads_Cons:
  "Reads rd pr (p # ps) =
     (fst (Read rd pr p) # fst (Reads rd (snd (snd (Read rd pr p))) ps),
      fst (snd (Read rd pr p)) @ fst (snd (Reads rd (snd (snd (Read rd pr p))) ps)),
      snd (snd (Reads rd (snd (snd (Read rd pr p))) ps)))"
  by (simp split: prod.splits)

lemma unwrapped_reads_Cons:
  "unwrapped_reads rd src (p # ps) =
     (fst (rd src p) # fst (unwrapped_reads rd (snd (rd src p)) ps),
      snd (unwrapped_reads rd (snd (rd src p)) ps))"
  by (simp split: prod.splits)

lemma Reads_total: "total (snd (snd (Reads rd pr ps))) = total pr"
proof (induction ps arbitrary: pr)
  case Nil
  show ?case by simp
next
  case (Cons p ps)
  show ?case
    using Cons.IH [of "snd (snd (Read rd pr p))"] Read_result [of rd pr p]
    by (simp add: Reads_Cons del: Reads.simps)
qed

lemma Reads_silent:
  "\<not> 0 <s total pr \<Longrightarrow> fst (snd (Reads rd pr ps)) = []"
proof (induction ps arbitrary: pr)
  case Nil
  show ?case by simp
next
  case (Cons p ps)
  have "\<not> 0 <s total (snd (snd (Read rd pr p)))"
    using Cons.prems Read_result [of rd pr p] by simp
  from Cons.IH [OF this] Read_out [of rd pr p] Cons.prems
  show ?case by (simp add: Reads_Cons del: Reads.simps)
qed

lemma Reads_increasing:
  "sorted_wrt (<) (percentages (fst (snd (Reads rd pr ps))))
   \<and> list_all (\<lambda>q. sint (lastPrint pr) < q) (percentages (fst (snd (Reads rd pr ps))))
   \<and> length (percentages (fst (snd (Reads rd pr ps)))) = length (fst (snd (Reads rd pr ps)))"
proof (induction ps arbitrary: pr)
  case Nil
  show ?case by simp
next
  case (Cons p ps)
  let ?pr' = "snd (snd (Read rd pr p))"
  let ?outs = "fst (snd (Reads rd ?pr' ps))"
  have run: "fst (snd (Reads rd pr (p # ps))) = fst (snd (Read rd pr p)) @ ?outs"
    by (simp add: Reads_Cons del: Reads.simps)
  note ih = Cons.IH [of ?pr']
  show ?case
  proof (cases "0 <s total pr
         \<and> lastPrint pr <s div_int64 (current ?pr' * 100) (total pr)")
    case False
    then have c: "(0 <s total pr
         \<and> lastPrint pr <s div_int64 (current ?pr' * 100) (total pr)) = False"
      by simp
    have "fst (snd (Read rd pr p)) = []" "lastPrint ?pr' = lastPrint pr"
      using Read_out [of rd pr p] unfolding c by simp_all
    then show ?thesis using ih by (simp add: run del: Reads.simps)
  next
    case True
    let ?pd = "div_int64 (current ?pr' * 100) (total pr)"
    from True have c: "(0 <s total pr
         \<and> lastPrint pr <s div_int64 (current ?pr' * 100) (total pr)) = True"
      by simp
    have o: "fst (snd (Read rd pr p)) = [PrintDownloading ?pd (current ?pr') (total pr)]"
      and l: "lastPrint ?pr' = ?pd"
      using Read_out [of rd pr p] unfolding c by simp_all
    have lt: "sint (lastPrint pr) < sint ?pd"
      using True by (simp add: word_sless_alt)
    have later: "list_all (\<lambda>q. sint ?pd < q) (percentages ?outs)"
      using ih l by simp
    then have "list_all (\<lambda>q. sint (lastPrint pr) < q) (percentages ?outs)"
      using lt by (auto simp: list_all_iff)
    then show ?thesis
      using ih lt later by (simp add: run o list_all_iff percentages_append del: Reads.simps)
  qed
qed

lemma sint_times_100:
  fixes cur :: int64
  assumes "0 \<le> sint cur" "sint cur * 100 < 2 ^ 63"
  shows "sint (cur * 100) = sint cur * 100"
proof -
  have "sint (cur * 100) = signed_take_bit 63 (sint cur * sint (100 :: int64))"
    by (simp add: sint_word_ariths)
  also have "sint (100 :: int64) = 100" by simp
  also have "signed_take_bit 63 (sint cur * 100) = sint cur * 100"
    using assms by (intro signed_take_bit_int_eq_self) simp_all
  finally show ?thesis .
qed

lemma div_int64_floor:
  fixes cur tot :: int64
  assumes "0 < sint tot" "0 \<le> sint cur" "sint cur * 100 < 2 ^ 63"
  shows "sint (div_int64 (cur * 100) tot) = sint cur * 100 div sint tot"
proof -
  let ?q = "sint cur * 100 div sint tot"
  have sd: "(sint cur * 100) sdiv sint tot = ?q"
    using assms(1,2) by (cases "sint cur = 0") (simp_all add: signed_divide_int_def sgn_if)
  have q0: "0 \<le> ?q" using assms(1,2) by (simp add: pos_imp_zdiv_nonneg_iff)
  have "?q \<le> sint cur * 100"
    using assms(2) int_div_le_self [of "sint cur * 100" "sint tot"]
    by (cases "sint cur = 0") simp_all
  then have q1: "?q < 2 ^ 63" using assms(3) by simp
  have "sint (word_of_int ?q :: int64) = signed_take_bit 63 ?q"
    by (simp add: sint_sbintrunc')
  also have "\<dots> = ?q"
    using q0 q1 by (intro signed_take_bit_int_eq_self) simp_all
  finally show ?thesis
    by (simp add: div_int64_def sint_times_100 [OF assms(2,3)] sd)
qed

lemma div_int64_numeral [simp]:
  "div_int64 300 8 = 37" "div_int64 600 8 = 75" "div_int64 800 8 = 100"
  by (simp_all add: div_int64_def signed_divide_int_def)

lemma eight_bytes_run:
  "Reads chunk_source eight_bytes four_buffers =
     ([([1, 2, 3], 3, None), ([4, 5, 6], 3, None), ([7, 8, 0], 2, None), ([0, 0, 0], 0, Some ''EOF'')],
      [PrintDownloading 37 3 8, PrintDownloading 75 6 8, PrintDownloading 100 8 8],
      \<lparr>reader = [], total = 8, current = 8, lastPrint = 100\<rparr>)"
  by (simp add: eight_bytes_def four_buffers_def chunk_source_def Read_def Let_def word_sless_alt)

lemma unknown_total_run:
  "fst (snd (Reads chunk_source (eight_bytes\<lparr>total := 0\<rparr>) four_buffers)) = []"
  by (simp add: eight_bytes_def four_buffers_def chunk_source_def Read_def Let_def)

text \<open>
  Claim C5. For every wrapped source, every state of the progress reader and every
  sequence of read requests, the declared total staying what it was: when the total is not
  positive nothing is emitted; the percentages emitted are strictly increasing, hence
  pairwise distinct, and all above the last value emitted before; every line emitted is a
  progress notification. One read adds the bytes read to the running total and emits a
  notification exactly when the total is positive and the percentage computed from the new
  running total exceeds the last emitted value, which then becomes that percentage. The
  percentage is the \<open>int64\<close> expression \<open>current * 100 / total\<close>, and it equals
  \<open>floor(current * 100 / total)\<close> whenever \<open>current\<close> is not negative and
  \<open>current * 100\<close> does not overflow 63 bits.
\<close>

theorem ProgressReader_notifications:
  "(\<not> 0 <s total pr \<longrightarrow> fst (snd (Reads rd pr ps)) = [])
   \<and> sorted_wrt (<) (percentages (fst (snd (Reads rd pr ps))))
   \<and> distinct (percentages (fst (snd (Reads rd pr ps))))
   \<and> list_all (\<lambda>q. sint (lastPrint pr) < q) (percentages (fst (snd (Reads rd pr ps))))
   \<and> length (percentages (fst (snd (Reads rd pr ps)))) = length (fst (snd (Reads rd pr ps)))
   \<and> total (snd (snd (Reads rd pr ps))) = total pr
   \<and> current (snd (snd (Read rd pr p)))
       = current pr + word_of_int (fst (snd (fst (rd (reader pr) p))))
   \<and> fst (snd (Read rd pr p)) =
       (if 0 <s total pr
           \<and> lastPrint pr <s div_int64 (current (snd (snd (Read rd pr p))) * 100) (total pr)
        then [PrintDownloading (div_int64 (current (snd (snd (Read rd pr p))) * 100) (total pr))
                               (current (snd (snd (Read rd pr p)))) (total pr)]
        else [])
   \<and> lastPrint (snd (snd (Read rd pr p))) =
       (if 0 <s total pr
           \<and> lastPrint pr <s div_int64 (current (snd (snd (Read rd pr p))) * 100) (total pr)
        then div_int64 (current (snd (snd (Read rd pr p))) * 100) (total pr)
        else lastPrint pr)
   \<and> (0 < sint tot \<and> 0 \<le> sint cur \<and> sint cur * 100 < 2 ^ 63 \<longrightarrow>
        sint (div_int64 (cur * 100) tot) = sint cur * 100 div sint tot)"
proof -
  have d: "distinct (percentages (fst (snd (Reads rd pr ps))))"
    using Reads_increasing [of rd pr ps] strict_sorted_iff by blast
  show ?thesis
    using Reads_silent [of pr rd ps] Reads_increasing [of rd pr ps] d Reads_total [of rd pr ps]
          Read_result [of rd pr p] Read_out [of rd pr p] div_int64_floor [of tot cur]
    by blast
qed

theorem ProgressReader_notifications_witness:
  "percentages (fst (snd (Reads chunk_source eight_bytes four_buffers))) = [37, 75, 100]
   \<and> sorted_wrt (<) [37, 75, 100 :: int]
   \<and> \<not> 0 <s total (eight_bytes\<lparr>total := 0\<rparr>)
   \<and> fst (snd (Reads chunk_source (eight_bytes\<lparr>total := 0\<rparr>) four_buffers)) = []
   \<and> sint (div_int64 (3 * 100) 8) = 3 * 100 div 8"
  using ProgressReader_notifications [of eight_bytes chunk_source four_buffers "[0, 0, 0]" 8 3]
        ProgressReader_notifications
          [of "eight_bytes\<lparr>total := 0\<rparr>" chunk_source four_buffers "[0, 0, 0]" 8 3]
  by (simp add: eight_bytes_run unknown_total_run)

lemma Reads_relay:
  "fst (Reads rd pr ps) = fst (unwrapped_reads rd (reader pr) ps)
   \<and> reader (snd (snd (Reads rd pr ps))) = snd (unwrapped_reads rd (reader pr) ps)"
proof (induction ps arbitrary: pr)
  case Nil
  show ?case by simp
next
  case (Cons p ps)
  show ?case
    using Cons.IH [of "snd (snd (Read rd pr p))"] Read_result [of rd pr p]
    by (simp add: Reads_Cons unwrapped_reads_Cons del: Reads.simps unwrapped_reads.simps)
qed

text \<open>
  Claim C8. For every wrapped source, every state of the progress reader and every read
  request, \<open>Read\<close> returns the buffer contents, the byte count and the error that the
  source's own \<open>Read\<close> returns for that request, and leaves the source in the state that
  call leaves it in; so a caller reading through the wrapper receives, request by request,
  what it would receive from the source itself.
\<close>

theorem ProgressReader_observational:
  "fst (Read rd pr p) = fst (rd (reader pr) p)
   \<and> reader (snd (snd (Read rd pr p))) = snd (rd (reader pr) p)
   \<and> fst (Reads rd pr ps) = fst (unwrapped_reads rd (reader pr) ps)
   \<and> reader (snd (snd (Reads rd pr ps))) = snd (unwrapped_reads rd (reader pr) ps)"
  using Read_result [of rd pr p] Reads_relay [of rd pr ps] by simp

theorem ProgressReader_observational_witness:
  "fst (Reads chunk_source eight_bytes four_buffers) =
     [([1, 2, 3], 3, None), ([4, 5, 6], 3, None), ([7, 8, 0], 2, None), ([0, 0, 0], 0, Some ''EOF'')]
   \<and> fst (unwrapped_reads chunk_source [1, 2, 3, 4, 5, 6, 7, 8] four_buffers) =
     [([1, 2, 3], 3, None), ([4, 5, 6], 3, None), ([7, 8, 0], 2, None), ([0, 0, 0], 0, Some ''EOF'')]"
  using ProgressReader_observational [of chunk_source eight_bytes "[0, 0, 0]" four_buffers]
  by (simp add: eight_bytes_run) (simp add: eight_bytes_def)

section \<open>Properties of processLocalFile\<close>

text \<open>
  Claim C9. \<open>processLocalFile\<close> panics exactly on the paths shorter than four bytes.
  On every other path the branch taken is fixed by what \<open>strings.ToLower\<close> returns for
  the last four bytes alone: \<open>.xml\<close> opens the path and scans it, \<open>.zip\<close> hands the
  path to \<open>processZipFile\<close>, and anything else returns the unsupported-file-type error
  naming that lowered tail, with the registry untouched and nothing written. With what is
  used of \<open>strings.ToLower\<close>, the lowered tail is \<open>.xml\<close> or \<open>.zip\<close> exactly when
  the last four bytes are \<open>.xml\<close> or \<open>.zip\<close> in some mix of capitals and small
  letters.
\<close>

theorem processLocalFile_dispatch:
  "(processLocalFile e filePath plates = Panic \<longleftrightarrow> length filePath < 4)
   \<and> (4 \<le> length filePath
        \<and> strings_ToLower e (drop (length filePath - 4) filePath) = ''.xml'' \<longrightarrow>
        processLocalFile e filePath plates =
          Return (case os_Open e filePath of
                    Inl err \<Rightarrow> (Some (''failed to open XML file: '' @ err), plates, [])
                  | Inr file \<Rightarrow>
                      (case streamXML file plates of
                         ((count, Some err), plates', scanned) \<Rightarrow> (Some err, plates', scanned)
                       | ((count, None), plates', scanned) \<Rightarrow>
                           (None, plates', scanned @ [PrintSuccessfullyProcessed count]))))
   \<and> (4 \<le> length filePath
        \<and> strings_ToLower e (drop (length filePath - 4) filePath) = ''.zip'' \<longrightarrow>
        processLocalFile e filePath plates = Return (processZipFile e filePath plates))
   \<and> (4 \<le> length filePath
        \<and> strings_ToLower e (drop (length filePath - 4) filePath) \<noteq> ''.xml''
        \<and> strings_ToLower e (drop (length filePath - 4) filePath) \<noteq> ''.zip'' \<longrightarrow>
        processLocalFile e filePath plates =
          Return (Some (''unsupported file type: ''
                        @ strings_ToLower e (drop (length filePath - 4) filePath)
                        @ '' (must be .xml or .zip)''), plates, []))
   \<and> (ToLower_contract (strings_ToLower e) \<and> 4 \<le> length filePath \<longrightarrow>
        (strings_ToLower e (drop (length filePath - 4) filePath) = ''.xml''
           \<longleftrightarrow> drop (length filePath - 4) filePath \<in> set xml_tails)
        \<and> (strings_ToLower e (drop (length filePath - 4) filePath) = ''.zip''
           \<longleftrightarrow> drop (length filePath - 4) filePath \<in> set zip_tails))"
proof -
  let ?tail = "drop (length filePath - 4) filePath"
  let ?ext = "strings_ToLower e ?tail"
  have panic: "processLocalFile e filePath plates = Panic \<longleftrightarrow> length filePath < 4"
    by (auto simp: processLocalFile_def Let_def split: sum.splits prod.splits option.splits)
  have other: "processLocalFile e filePath plates =
      Return (Some (''unsupported file type: '' @ ?ext @ '' (must be .xml or .zip)''), plates, [])"
    if "4 \<le> length filePath" "?ext \<noteq> ''.xml''" "?ext \<noteq> ''.zip''"
    using that by (simp add: processLocalFile_def Let_def)
  have xml: "processLocalFile e filePath plates =
      Return (case os_Open e filePath of
                Inl err \<Rightarrow> (Some (''failed to open XML file: '' @ err), plates, [])
              | Inr file \<Rightarrow>
                  (case streamXML file plates of
                     ((count, Some err), plates', scanned) \<Rightarrow> (Some err, plates', scanned)
                   | ((count, None), plates', scanned) \<Rightarrow>
                       (None, plates', scanned @ [PrintSuccessfullyProcessed count])))"
    if "4 \<le> length filePath" "?ext = ''.xml''"
    using that
    by (auto simp: processLocalFile_def Let_def split: sum.splits prod.splits option.splits)
  have zip: "processLocalFile e filePath plates = Return (processZipFile e filePath plates)"
    if "4 \<le> length filePath" "?ext = ''.zip''"
    using that by (simp add: processLocalFile_def Let_def)
  have bytes: "(?ext = ''.xml'' \<longleftrightarrow> ?tail \<in> set xml_tails)
             \<and> (?ext = ''.zip'' \<longleftrightarrow> ?tail \<in> set zip_tails)"
    if "ToLower_contract (strings_ToLower e)" "4 \<le> length filePath"
  proof -
    have "length ?tail = 4" using that(2) by simp
    then show ?thesis using that(1) unfolding ToLower_contract_def by blast
  qed
  show ?thesis
    using panic other xml zip bytes by blast
qed

text \<open>
  With ASCII lowering for \<open>strings.ToLower\<close>: a path of three bytes panics, \<open>.TXT\<close> is
  reported as \<open>.txt\<close>, \<open>.XML\<close> is opened as a markup file and \<open>.ZIP\<close> as an archive.
\<close>

theorem processLocalFile_dispatch_witness:
  "processLocalFile scenario_env ''abc'' Map.empty = Panic
   \<and> processLocalFile scenario_env ''notes.TXT'' Map.empty =
       Return (Some ''unsupported file type: .txt (must be .xml or .zip)'', Map.empty, [])
   \<and> processLocalFile scenario_env ''data.XML'' Map.empty =
       Return (Some ''failed to open XML file: no such file'', Map.empty, [])
   \<and> processLocalFile scenario_env ''A.ZIP'' Map.empty =
       Return (processZipFile scenario_env ''A.ZIP'' Map.empty)"
proof -
  have lower: "ToLower_contract (strings_ToLower scenario_env)"
    using ToLower_ascii_contract by (simp add: scenario_env_def)
  have low: "strings_ToLower scenario_env ''.TXT'' = ''.txt''"
    by (simp add: scenario_env_def ToLower_ascii_def toLowerByte_def)
  have tails: "''.TXT'' \<notin> set xml_tails" "''.TXT'' \<notin> set zip_tails"
              "''.XML'' \<in> set xml_tails" "''.ZIP'' \<in> set zip_tails"
    by (simp_all add: xml_tails_def zip_tails_def)
  have opened: "os_Open scenario_env ''data.XML'' = Inl ''no such file''"
    by (simp add: scenario_env_def)
  show ?thesis
    using processLocalFile_dispatch [of scenario_env "''abc''" Map.empty]
          processLocalFile_dispatch [of scenario_env "''notes.TXT''" Map.empty]
          processLocalFile_dispatch [of scenario_env "''data.XML''" Map.empty]
          processLocalFile_dispatch [of scenario_env "''A.ZIP''" Map.empty]
    by (simp add: lower low tails opened)
qed

end
